theory Spec2Isabelle
  imports Complex_Main "HOL-Library.Word"
begin

section \<open>Data model (types.ts)\<close>

text \<open>
  A JavaScript string is a sequence of UTF-16 code units: \<open>s.length\<close> counts them and
  \<open>s.slice(0, n)\<close> keeps the first \<open>n\<close> of them. Strings are therefore lists of
  16-bit words; the empty list is the only falsy string.
\<close>

type_synonym jsstring = "16 word list"

datatype TargetLanguage = KOREAN | ENGLISH | CHINESE | VIETNAMESE | RUSSIAN | UZBEK

datatype ProcessStatus = Idle | Extracting | Translating | Speaking | Completed | Error

text \<open>
  Of a browser \<open>File\<close> the program reads the name and the byte size; of an
  \<open>AudioBuffer\<close> it reads the duration in seconds.
\<close>

record File =
  name :: jsstring
  size_bytes :: nat

record AudioBuffer =
  duration :: real

text \<open>
  \<open>QueueItem\<close>. The optional fields \<open>file\<close> (here \<open>file_ref\<close>), \<open>translatedText\<close>, \<open>error\<close> and
  \<open>audioBuffer\<close> are options; \<open>null\<close> and \<open>undefined\<close> are both \<open>None\<close>.
  The field \<open>id\<close> of the source is \<open>item_id\<close> here.
\<close>

record QueueItem =
  item_id :: jsstring
  file_ref :: "File option"
  fileName :: jsstring
  originalText :: jsstring
  translatedText :: "jsstring option"
  targetLanguage :: TargetLanguage
  status :: ProcessStatus
  error :: "jsstring option"
  audioBuffer :: "AudioBuffer option"

record AppState =
  queue :: "QueueItem list"
  selectedLanguage :: TargetLanguage
  isProcessingQueue :: bool
  currentItemId :: "jsstring option"
  globalError :: "jsstring option"
  autoPlay :: bool

section \<open>String helpers\<close>

text \<open>
  \<open>String.prototype.trim\<close> removes the ECMAScript WhiteSpace and LineTerminator code
  points from both ends; all of them lie in the basic plane, so they are single code units.
\<close>

definition isWhiteSpace :: "16 word \<Rightarrow> bool" where
  "isWhiteSpace c \<longleftrightarrow> c \<in> set [0x9, 0xA, 0xB, 0xC, 0xD, 0x20, 0xA0, 0x1680,
     0x2000, 0x2001, 0x2002, 0x2003, 0x2004, 0x2005, 0x2006, 0x2007, 0x2008, 0x2009, 0x200A,
     0x2028, 0x2029, 0x202F, 0x205F, 0x3000, 0xFEFF]"

definition trim :: "jsstring \<Rightarrow> jsstring" where
  "trim s = rev (dropWhile isWhiteSpace (rev (dropWhile isWhiteSpace s)))"

text \<open>The message literals of the source, as UTF-16 code units.\<close>

definition speechFailedNote :: jsstring where
  "speechFailedNote = [0xC74C, 0xC131, 0x20, 0xC0DD, 0xC131, 0x20, 0xC2E4, 0xD328]"

definition noTextMsg :: jsstring where
  "noTextMsg = [0xBC88, 0xC5ED, 0xD560, 0x20, 0xD14D, 0xC2A4, 0xD2B8, 0xAC00, 0x20, 0xC5C6,
     0xC2B5, 0xB2C8, 0xB2E4, 0x2E]"

definition emptyContentMsg :: jsstring where
  "emptyContentMsg = [0xD14D, 0xC2A4, 0xD2B8, 0xB97C, 0x20, 0xCD94, 0xCD9C, 0xD560, 0x20,
     0xC218, 0x20, 0xC5C6, 0xAC70, 0xB098, 0x20, 0xB0B4, 0xC6A9, 0xC774, 0x20, 0xBE44, 0xC5B4,
     0xC788, 0xC2B5, 0xB2C8, 0xB2E4, 0x2E]"

definition fileReadFailedPrefix :: jsstring where
  "fileReadFailedPrefix = [0xD30C, 0xC77C, 0x20, 0xC77D, 0xAE30, 0x20, 0xC2E4, 0xD328, 0x3A, 0x20]"

definition defaultErrorMsg :: jsstring where
  "defaultErrorMsg = [0xCC98, 0xB9AC, 0x20, 0xC911, 0x20, 0xC624, 0xB958, 0x20, 0xBC1C, 0xC0DD]"

section \<open>The stage gateway (services/geminiService)\<close>

text \<open>
  The three asynchronous operations the pipeline awaits. Each one resolves with a value
  (\<open>Inr\<close>) or rejects with an \<open>Error\<close> whose message is the \<open>Inl\<close> part. What the
  backends answer is not fixed by the program, so the gateway is a parameter.
\<close>

record StageGateway =
  extractTextFromFile :: "File \<Rightarrow> jsstring + jsstring"
  translateSafetyText :: "jsstring \<Rightarrow> TargetLanguage \<Rightarrow> jsstring + jsstring"
  generateSpeech :: "jsstring \<Rightarrow> jsstring + AudioBuffer"

section \<open>Queue operations\<close>

definition MAX_INPUT_LENGTH :: nat where
  "MAX_INPUT_LENGTH = 10000"

text \<open>
  \<open>updateItemStatus(id, updates)\<close> merges a \<open>Partial<QueueItem>\<close> into every item
  with that id. A partial item is the list of its keys with their values; a key that is
  present with the value \<open>undefined\<close> overwrites the field with \<open>None\<close>.
\<close>

datatype field_update =
    SetStatus ProcessStatus
  | SetOriginalText jsstring
  | SetTranslatedText jsstring
  | SetAudioBuffer "AudioBuffer option"
  | SetError "jsstring option"

fun applyUpdate :: "field_update \<Rightarrow> QueueItem \<Rightarrow> QueueItem" where
  "applyUpdate (SetStatus s) item = item\<lparr>status := s\<rparr>"
| "applyUpdate (SetOriginalText t) item = item\<lparr>originalText := t\<rparr>"
| "applyUpdate (SetTranslatedText t) item = item\<lparr>translatedText := Some t\<rparr>"
| "applyUpdate (SetAudioBuffer b) item = item\<lparr>audioBuffer := b\<rparr>"
| "applyUpdate (SetError e) item = item\<lparr>error := e\<rparr>"

definition merge :: "field_update list \<Rightarrow> QueueItem \<Rightarrow> QueueItem" where
  "merge updates item = fold applyUpdate updates item"

definition updateItemStatus :: "jsstring \<Rightarrow> field_update list \<Rightarrow> AppState \<Rightarrow> AppState" where
  "updateItemStatus i updates prev =
     prev\<lparr>queue := map (\<lambda>item. if item_id item = i then merge updates item else item) (queue prev)\<rparr>"

definition addToQueue :: "QueueItem list \<Rightarrow> AppState \<Rightarrow> AppState" where
  "addToQueue items prev = prev\<lparr>queue := queue prev @ items, globalError := None\<rparr>"

definition toggleProcessing :: "AppState \<Rightarrow> AppState" where
  "toggleProcessing state =
     (if isProcessingQueue state then state\<lparr>isProcessingQueue := False\<rparr>
      else state\<lparr>isProcessingQueue := True, currentItemId := None\<rparr>)"

section \<open>The per-item pipeline (the try block of processNext)\<close>

text \<open>
  What one run of the pipeline does, in order: the \<open>updateItemStatus\<close> calls, the
  gateway calls it awaits, the simulated delay (milliseconds) and the logged synthesis
  failure.
\<close>

datatype action =
    Update "field_update list"
  | CallExtract File
  | CallTranslate jsstring TargetLanguage
  | Sleep nat
  | CallSpeech jsstring
  | LogTtsError jsstring

text \<open>
  Stage 1. Extraction runs only when the item has no text yet and has a file. The result
  is the text to translate, or the message of the error thrown.
\<close>

definition extractionStage :: "StageGateway \<Rightarrow> QueueItem \<Rightarrow> action list \<times> (jsstring + jsstring)" where
  "extractionStage gw nextItem =
     (case file_ref nextItem of
        None \<Rightarrow> ([], Inr (originalText nextItem))
      | Some f \<Rightarrow>
          if originalText nextItem = [] then
            (case extractTextFromFile gw f of
               Inl message \<Rightarrow>
                 ([Update [SetStatus Extracting], CallExtract f], Inl (fileReadFailedPrefix @ message))
             | Inr text \<Rightarrow>
                 (let textToTranslate =
                        (if length text > MAX_INPUT_LENGTH then take MAX_INPUT_LENGTH text else text)
                  in ([Update [SetStatus Extracting], CallExtract f,
                       Update [SetOriginalText textToTranslate]], Inr textToTranslate)))
          else ([], Inr (originalText nextItem)))"

text \<open>The two guards after extraction; the result is the message thrown, if any.\<close>

definition contentGuard :: "QueueItem \<Rightarrow> jsstring \<Rightarrow> jsstring option" where
  "contentGuard nextItem textToTranslate =
     (if textToTranslate = [] \<and> file_ref nextItem = None then Some noTextMsg
      else if trim textToTranslate = [] then Some emptyContentMsg
      else None)"

text \<open>Stage 2. Translation, skipped for Korean.\<close>

definition translationStage ::
  "StageGateway \<Rightarrow> QueueItem \<Rightarrow> jsstring \<Rightarrow> action list \<times> (jsstring + jsstring)" where
  "translationStage gw nextItem textToTranslate =
     (if targetLanguage nextItem = KOREAN then
        ([Update [SetStatus Translating], Sleep 300, Update [SetTranslatedText textToTranslate]],
         Inr textToTranslate)
      else
        (case translateSafetyText gw textToTranslate (targetLanguage nextItem) of
           Inl message \<Rightarrow>
             ([Update [SetStatus Translating],
               CallTranslate textToTranslate (targetLanguage nextItem)], Inl message)
         | Inr translated \<Rightarrow>
             ([Update [SetStatus Translating],
               CallTranslate textToTranslate (targetLanguage nextItem),
               Update [SetTranslatedText translated]], Inr translated)))"

text \<open>
  Stage 3. Speech synthesis; its failure is caught and logged inside the stage. The audio
  context that \<open>getAudioContext\<close> hands to \<open>generateSpeech\<close> is taken to exist.
\<close>

definition speechStage :: "StageGateway \<Rightarrow> jsstring \<Rightarrow> action list" where
  "speechStage gw translated =
     (case generateSpeech gw translated of
        Inl ttsError \<Rightarrow>
          [Update [SetStatus Speaking], CallSpeech translated, LogTtsError ttsError,
           Update [SetStatus Completed, SetAudioBuffer None, SetError (Some speechFailedNote)]]
      | Inr buffer \<Rightarrow>
          [Update [SetStatus Speaking], CallSpeech translated,
           Update [SetStatus Completed, SetAudioBuffer (Some buffer), SetError None]])"

text \<open>The outer catch: \<open>error.message || default\<close>.\<close>

definition catchUpdate :: "jsstring \<Rightarrow> action" where
  "catchUpdate message =
     Update [SetStatus Error, SetError (Some (if message = [] then defaultErrorMsg else message))]"

definition processItem :: "StageGateway \<Rightarrow> QueueItem \<Rightarrow> action list" where
  "processItem gw nextItem =
     (case extractionStage gw nextItem of
        (a1, Inl message) \<Rightarrow> a1 @ [catchUpdate message]
      | (a1, Inr textToTranslate) \<Rightarrow>
          (case contentGuard nextItem textToTranslate of
             Some message \<Rightarrow> a1 @ [catchUpdate message]
           | None \<Rightarrow>
               (case translationStage gw nextItem textToTranslate of
                  (a2, Inl message) \<Rightarrow> a1 @ a2 @ [catchUpdate message]
                | (a2, Inr translated) \<Rightarrow> a1 @ a2 @ speechStage gw translated)))"

text \<open>
  Whether the run of the pipeline on an item ends in the outer catch: extraction throws, a
  content guard throws, or translation throws.
\<close>

definition hardFailure :: "StageGateway \<Rightarrow> QueueItem \<Rightarrow> bool" where
  "hardFailure gw nextItem =
     (case extractionStage gw nextItem of
        (a1, Inl message) \<Rightarrow> True
      | (a1, Inr textToTranslate) \<Rightarrow>
          (case contentGuard nextItem textToTranslate of
             Some message \<Rightarrow> True
           | None \<Rightarrow>
               (case translationStage gw nextItem textToTranslate of
                  (a2, Inl message) \<Rightarrow> True
                | (a2, Inr translated) \<Rightarrow> False)))"

section \<open>processNext and the effect that drives it\<close>

fun perform :: "jsstring \<Rightarrow> action \<Rightarrow> AppState \<Rightarrow> AppState" where
  "perform i (Update updates) prev = updateItemStatus i updates prev"
| "perform i _ prev = prev"

definition performAll :: "jsstring \<Rightarrow> action list \<Rightarrow> AppState \<Rightarrow> AppState" where
  "performAll i actions prev = fold (perform i) actions prev"

definition scanNext :: "AppState \<Rightarrow> QueueItem option" where
  "scanNext state = find (\<lambda>item. status item = Idle) (queue state)"

text \<open>
  \<open>processNext\<close> is a closure of one run of the effect: \<open>state\<close> is the state of the
  render the effect belongs to, which the guard and the scan read; \<open>isCancelled\<close> is the
  closure's flag; every \<open>setState(prev => ...)\<close> applies to the latest state \<open>prev\<close>.
  The result is the latest state when the call has run to its end, and whether the
  100 ms timer for the next scan was set.
\<close>

definition processNext :: "StageGateway \<Rightarrow> bool \<Rightarrow> AppState \<Rightarrow> AppState \<Rightarrow> AppState \<times> bool" where
  "processNext gw isCancelled state prev =
     (if \<not> isProcessingQueue state \<or> isCancelled then (prev, False)
      else
        (case scanNext state of
           None \<Rightarrow> (prev\<lparr>isProcessingQueue := False, currentItemId := None\<rparr>, False)
         | Some nextItem \<Rightarrow>
             (performAll (item_id nextItem) (processItem gw nextItem)
                (prev\<lparr>currentItemId := Some (item_id nextItem)\<rparr>), True)))"

section \<open>The effect around processNext\<close>

text \<open>
  The effect depends on \<open>[state.isProcessingQueue, state.queue, state.currentItemId]\<close>.
  After a render in which one of them has changed, React first runs the cleanup of the
  previous run, which sets that run's \<open>isCancelled\<close>, and then the effect body with the
  new state. \<open>!state.currentItemId\<close> holds for \<open>null\<close> and for the empty string.
\<close>

definition truthy :: "jsstring option \<Rightarrow> bool" where
  "truthy v = (case v of None \<Rightarrow> False | Some s \<Rightarrow> s \<noteq> [])"

definition depsChanged :: "AppState \<Rightarrow> AppState \<Rightarrow> bool" where
  "depsChanged old new \<longleftrightarrow>
     \<not> (isProcessingQueue old = isProcessingQueue new \<and> queue old = queue new \<and>
        currentItemId old = currentItemId new)"

definition runEffect :: "StageGateway \<Rightarrow> AppState \<Rightarrow> AppState \<times> bool" where
  "runEffect gw state =
     (if isProcessingQueue state \<and> \<not> truthy (currentItemId state)
      then processNext gw False state state
      else (state, False))"

text \<open>The callback of \<open>setTimeout(..., 100)\<close>, which reads the closure's flag.\<close>

definition timerFired :: "StageGateway \<Rightarrow> bool \<Rightarrow> AppState \<Rightarrow> AppState \<Rightarrow> AppState \<times> bool" where
  "timerFired gw isCancelled state prev =
     (if \<not> isCancelled then processNext gw isCancelled state prev else (prev, False))"

text \<open>
  One run of the effect for the render with \<open>state\<close>, up to and including its timer:
  \<open>processNext\<close> runs to its end and leaves the latest state; the renders it has caused
  have run the cleanup if a dependency has changed; then the timer fires. The result is
  the latest state and whether a further timer is pending.
\<close>

definition effectThenTimer :: "StageGateway \<Rightarrow> AppState \<Rightarrow> AppState \<times> bool" where
  "effectThenTimer gw state =
     (case runEffect gw state of
        (latest, timer) \<Rightarrow>
          if timer then timerFired gw (depsChanged state latest) state latest
          else (latest, False))"

section \<open>File intake (services/fileUtils, handleFiles)\<close>

definition MAX_FILE_SIZE_MB :: nat where
  "MAX_FILE_SIZE_MB = 3"

definition MAX_FILE_SIZE_BYTES :: nat where
  "MAX_FILE_SIZE_BYTES = MAX_FILE_SIZE_MB * 1024 * 1024"

definition validExtensions :: "jsstring list" where
  "validExtensions =
     [0x2E, 0x64, 0x6F, 0x63, 0x78] # [0x2E, 0x78, 0x6C, 0x73, 0x78] # [0x2E, 0x70, 0x70, 0x74, 0x78] #
     [0x2E, 0x68, 0x77, 0x70] # [0x2E, 0x74, 0x78, 0x74] # [0x2E, 0x70, 0x64, 0x66] # []"

definition endsWith :: "jsstring \<Rightarrow> jsstring \<Rightarrow> bool" where
  "endsWith s ext \<longleftrightarrow> length ext \<le> length s \<and> drop (length s - length ext) s = ext"

text \<open>
  \<open>String.prototype.toLowerCase\<close> is the platform's; it is the parameter \<open>toLowerCase\<close>.
\<close>

definition isValidFileType :: "(jsstring \<Rightarrow> jsstring) \<Rightarrow> File \<Rightarrow> bool" where
  "isValidFileType toLowerCase f \<longleftrightarrow>
     list_ex (\<lambda>ext. endsWith (toLowerCase (name f)) ext) validExtensions"

definition isValidFileSize :: "File \<Rightarrow> bool" where
  "isValidFileSize f \<longleftrightarrow> size_bytes f \<le> MAX_FILE_SIZE_BYTES"

definition unsupportedTypeMsg :: jsstring where
  "unsupportedTypeMsg = [0xC9C0, 0xC6D0, 0xB418, 0xC9C0, 0x20, 0xC54A, 0xB294, 0x20, 0xD30C, 0xC77C,
     0x20, 0xD615, 0xC2DD, 0xC774, 0x20, 0xD3EC, 0xD568, 0xB418, 0xC5B4, 0x20, 0xC788, 0xC2B5, 0xB2C8,
     0xB2E4, 0x2E]"

text \<open>
  \<open>generateId\<close> draws a random string; \<open>generateId k\<close> stands for the result of the
  \<open>k\<close>-th call made by one \<open>handleFiles\<close>. A \<open>null\<close> file list is \<open>None\<close>.
\<close>

fun newItems :: "(jsstring \<Rightarrow> jsstring) \<Rightarrow> (nat \<Rightarrow> jsstring) \<Rightarrow> TargetLanguage \<Rightarrow> nat \<Rightarrow> File list
    \<Rightarrow> QueueItem list" where
  "newItems toLowerCase generateId lang k [] = []"
| "newItems toLowerCase generateId lang k (f # files) =
     (if \<not> isValidFileType toLowerCase f then newItems toLowerCase generateId lang k files
      else \<lparr>item_id = generateId k, file_ref = Some f, fileName = name f, originalText = [],
             translatedText = None, targetLanguage = lang, status = Idle, error = None,
             audioBuffer = None\<rparr>
           # newItems toLowerCase generateId lang (Suc k) files)"

definition handleFiles ::
  "(jsstring \<Rightarrow> jsstring) \<Rightarrow> (nat \<Rightarrow> jsstring) \<Rightarrow> File list option \<Rightarrow> AppState \<Rightarrow> AppState" where
  "handleFiles toLowerCase generateId fileList state =
     (case fileList of
        None \<Rightarrow> state
      | Some files \<Rightarrow>
          (let items = newItems toLowerCase generateId (selectedLanguage state) 0 files
           in if items = [] \<and> files \<noteq> [] then state\<lparr>globalError := Some unsupportedTypeMsg\<rparr>
              else addToQueue items state))"

section \<open>The audio player\<close>

text \<open>
  An \<open>AudioBufferSourceNode\<close>: \<open>node\<close> tells the nodes apart, \<open>startedAt\<close> is the
  offset given to \<open>start(0, offset)\<close>. The handler that \<open>playAudio\<close> installs is a closure
  over the \<open>isPaused\<close> of the render that \<open>playAudio\<close> belongs to: \<open>onended = Some b\<close>
  is that handler with \<open>isPaused = b\<close>, and \<open>None\<close> is \<open>onended = null\<close>.
\<close>

record SourceNode =
  node :: nat
  buffer :: AudioBuffer
  onended :: "bool option"
  startedAt :: real

text \<open>
  A call of \<open>playAudio\<close> that waits at \<open>await ctx.resume()\<close>: its arguments and the
  \<open>isPaused\<close> of the render it belongs to.
\<close>

record Awaiting =
  buf_arg :: AudioBuffer
  id_arg :: jsstring
  resume_arg :: bool
  isPaused_seen :: bool

text \<open>
  The refs and the playback state of the component, and the audio context.
  \<open>animationFrame\<close> tells whether \<open>animationFrameRef.current\<close> holds a handle.
  \<open>emitting\<close> lists the nodes of the audio context that have been started and have
  neither been stopped nor ended, and \<open>created\<close> counts the nodes made so far.
  \<open>suspended\<close> is \<open>ctx.state === 'suspended'\<close>, and \<open>awaiting\<close> lists the calls of
  \<open>playAudio\<close> that wait for \<open>ctx.resume()\<close>, oldest first. Times are seconds; the
  clock \<open>ctx.currentTime\<close> is read as a real number, where the code has a double. What
  is proved below of offsets and progress uses of the arithmetic only that \<open>x - x = 0\<close>
  and \<open>x + 0 = x\<close>, or is computed on values that doubles represent exactly.
\<close>

record Player =
  audioSource :: "SourceNode option"
  animationFrame :: bool
  startTime :: real
  offset :: real
  playingItemId :: "jsstring option"
  isPaused :: bool
  playbackProgress :: real
  emitting :: "SourceNode list"
  created :: nat
  suspended :: bool
  awaiting :: "Awaiting list"

text \<open>
  The first render. Whether the platform hands out the audio context running or suspended
  is its autoplay policy: \<open>initialPlayer\<close> has it running, \<open>suspendedPlayer\<close> suspended.
\<close>

definition initialPlayer :: Player where
  "initialPlayer =
     \<lparr>audioSource = None, animationFrame = False, startTime = 0, offset = 0, playingItemId = None,
      isPaused = False, playbackProgress = 0, emitting = [], created = 0, suspended = False,
      awaiting = []\<rparr>"

definition suspendedPlayer :: Player where
  "suspendedPlayer = initialPlayer\<lparr>suspended := True\<rparr>"

definition halt :: "SourceNode \<Rightarrow> SourceNode list \<Rightarrow> SourceNode list" where
  "halt src nodes = filter (\<lambda>n. node n \<noteq> node src) nodes"

definition stopAudio :: "Player \<Rightarrow> Player" where
  "stopAudio p =
     p\<lparr>emitting := (case audioSource p of None \<Rightarrow> emitting p | Some src \<Rightarrow> halt src (emitting p)),
       audioSource := None, animationFrame := False, playingItemId := None, isPaused := False,
       offset := 0, playbackProgress := 0\<rparr>"

definition pauseAudio :: "real \<Rightarrow> Player \<Rightarrow> Player" where
  "pauseAudio now p =
     (case audioSource p of
        None \<Rightarrow> p
      | Some src \<Rightarrow>
          p\<lparr>offset := offset p + (now - startTime p), emitting := halt src (emitting p),
            audioSource := None, animationFrame := False, isPaused := True\<rparr>)"

text \<open>
  \<open>playAudio\<close>. The two stop tests run in the turn of the click that calls it, on the
  state of the latest render. With a running context the rest of the body runs in the same
  turn. With a suspended context the call waits at \<open>await ctx.resume()\<close>, and the rest
  runs when the context has resumed, on the refs as they are then: other clicks are handled
  in between. \<open>startSource\<close> is the part from \<open>createBufferSource\<close> on; \<open>captured\<close>
  is the \<open>isPaused\<close> that the new handler closes over.
\<close>

definition startSource :: "AudioBuffer \<Rightarrow> jsstring \<Rightarrow> bool \<Rightarrow> bool \<Rightarrow> real \<Rightarrow> Player \<Rightarrow> Player" where
  "startSource buf i resume captured now p =
     (let startOffset = (if resume then offset p else 0);
          source = \<lparr>node = created p, buffer = buf, onended = Some captured, startedAt = startOffset\<rparr>
      in p\<lparr>emitting := emitting p @ [source], created := Suc (created p),
           audioSource := Some source, startTime := now,
           offset := (if resume then offset p else 0),
           playingItemId := Some i, isPaused := False, animationFrame := True\<rparr>)"

definition playAudio :: "AudioBuffer \<Rightarrow> jsstring \<Rightarrow> bool \<Rightarrow> real \<Rightarrow> Player \<Rightarrow> Player" where
  "playAudio buf i resume now p =
     (let p1 = (if \<not> resume \<and> truthy (playingItemId p) \<and> playingItemId p \<noteq> Some i
                then stopAudio p else p);
          p2 = (if audioSource p1 \<noteq> None \<and> \<not> resume then stopAudio p1 else p1)
      in if suspended p2
         then p2\<lparr>awaiting := awaiting p2 @
                [\<lparr>buf_arg = buf, id_arg = i, resume_arg = resume, isPaused_seen = isPaused p\<rparr>]\<rparr>
         else startSource buf i resume (isPaused p) now p2)"

text \<open>
  \<open>ctx.resume()\<close> has resolved at clock reading \<open>now\<close>: the context runs, and the
  waiting calls of \<open>playAudio\<close> go on one after the other, in the order of their calls.
\<close>

definition continuePlay :: "real \<Rightarrow> Awaiting \<Rightarrow> Player \<Rightarrow> Player" where
  "continuePlay now a p = startSource (buf_arg a) (id_arg a) (resume_arg a) (isPaused_seen a) now p"

definition resumeResolved :: "real \<Rightarrow> Player \<Rightarrow> Player" where
  "resumeResolved now p =
     fold (continuePlay now) (awaiting p) (p\<lparr>suspended := False, awaiting := []\<rparr>)"

text \<open>One run of the progress callback \<open>updateProgress\<close> of a \<open>playAudio\<close> on \<open>buf\<close>.\<close>

definition updateProgress :: "AudioBuffer \<Rightarrow> real \<Rightarrow> Player \<Rightarrow> Player" where
  "updateProgress buf now p =
     (case audioSource p of
        None \<Rightarrow> p
      | Some src \<Rightarrow>
          (let elapsedSinceStart = now - startTime p;
               totalElapsed = offset p + elapsedSinceStart;
               progress = min (totalElapsed / duration buf * 100) 100
           in p\<lparr>playbackProgress := progress,
                animationFrame := (if progress < 100 then True else animationFrame p)\<rparr>))"

text \<open>
  The node \<open>n\<close> has played its buffer to the end: it emits no more, and the audio
  context calls its \<open>onended\<close> handler, if it has one.
\<close>

definition finished :: "nat \<Rightarrow> Player \<Rightarrow> Player" where
  "finished n p =
     (case find (\<lambda>src. node src = n) (emitting p) of
        None \<Rightarrow> p
      | Some src \<Rightarrow>
          (let p' = p\<lparr>emitting := halt src (emitting p)\<rparr>
           in case onended src of
                None \<Rightarrow> p'
              | Some captured \<Rightarrow> if \<not> captured then stopAudio p' else p'))"

text \<open>
  The play button of an item's row, shown for a completed item with audio: it resumes or
  pauses the item that is playing, and plays any other item afresh.
\<close>

definition playButton :: "QueueItem \<Rightarrow> real \<Rightarrow> Player \<Rightarrow> Player" where
  "playButton item now p =
     (case audioBuffer item of
        None \<Rightarrow> p
      | Some buf \<Rightarrow>
          if status item \<noteq> Completed then p
          else if playingItemId p = Some (item_id item) then
            (if isPaused p then playAudio buf (item_id item) True now p else pauseAudio now p)
          else playAudio buf (item_id item) False now p)"

definition removeFromQueue :: "jsstring \<Rightarrow> AppState \<times> Player \<Rightarrow> AppState \<times> Player" where
  "removeFromQueue i app =
     (case app of
        (prev, p) \<Rightarrow>
          (prev\<lparr>queue := filter (\<lambda>item. item_id item \<noteq> i) (queue prev)\<rparr>,
           if playingItemId p = Some i then stopAudio p else p))"

definition clearQueue :: "AppState \<times> Player \<Rightarrow> AppState \<times> Player" where
  "clearQueue app =
     (case app of
        (prev, p) \<Rightarrow>
          (prev\<lparr>queue := [], isProcessingQueue := False, currentItemId := None\<rparr>, stopAudio p))"

definition initialState :: AppState where
  "initialState =
     \<lparr>queue = [], selectedLanguage = CHINESE, isProcessingQueue = False, currentItemId = None,
      globalError = None, autoPlay = True\<rparr>"

text \<open>
  What the user and the platform can do to the queue and the player, one step at a time,
  from the first render with the player \<open>first\<close> on. The pipeline touches the queue
  through \<open>updateItemStatus\<close> only, so its steps interleave freely with the others;
  \<open>control\<close> covers every assignment to \<open>isProcessingQueue\<close> and \<open>currentItemId\<close>.
  The code never suspends the context, so \<open>resolved\<close> is the only change of its state.
\<close>

inductive reachableFrom :: "Player \<Rightarrow> AppState \<times> Player \<Rightarrow> bool" for first :: Player where
  start: "reachableFrom first (initialState, first)"
| add: "reachableFrom first (state, p) \<Longrightarrow> reachableFrom first (addToQueue items state, p)"
| update: "reachableFrom first (state, p) \<Longrightarrow>
    reachableFrom first (updateItemStatus i updates state, p)"
| remove: "reachableFrom first (state, p) \<Longrightarrow> reachableFrom first (removeFromQueue i (state, p))"
| clear: "reachableFrom first (state, p) \<Longrightarrow> reachableFrom first (clearQueue (state, p))"
| button: "reachableFrom first (state, p) \<Longrightarrow> item \<in> set (queue state) \<Longrightarrow>
    reachableFrom first (state, playButton item now p)"
| stop: "reachableFrom first (state, p) \<Longrightarrow> reachableFrom first (state, stopAudio p)"
| ended: "reachableFrom first (state, p) \<Longrightarrow> reachableFrom first (state, finished n p)"
| tick: "reachableFrom first (state, p) \<Longrightarrow>
    reachableFrom first (state, updateProgress buf now p)"
| resolved: "reachableFrom first (state, p) \<Longrightarrow> suspended p \<Longrightarrow>
    reachableFrom first (state, resumeResolved now p)"
| control: "reachableFrom first (state, p) \<Longrightarrow>
    reachableFrom first (state\<lparr>isProcessingQueue := running, currentItemId := current\<rparr>, p)"
| other: "reachableFrom first (state, p) \<Longrightarrow>
    reachableFrom first (state\<lparr>selectedLanguage := lang, globalError := message\<rparr>, p)"

text \<open>
  What holds of every state reached on a context that runs from the first render on: a
  paused player holds no node, at most the node held in \<open>audioSourceRef\<close> emits, and the
  item that plays is in the queue.
\<close>

definition sessionInvariant :: "AppState \<times> Player \<Rightarrow> bool" where
  "sessionInvariant app =
     (case app of
        (state, p) \<Rightarrow>
          \<not> suspended p \<and>
          (isPaused p \<longrightarrow> audioSource p = None) \<and>
          (case audioSource p of
             None \<Rightarrow> emitting p = []
           | Some src \<Rightarrow> emitting p = [] \<or> emitting p = [src]) \<and>
          (case playingItemId p of
             None \<Rightarrow> True
           | Some i \<Rightarrow> i \<in> item_id ` set (queue state)))"

section \<open>The item a scan selects, and what the pipeline makes of it\<close>

text \<open>
  \<open>Array.prototype.find\<close> returns the first item that satisfies the test, so the
  selected item sits right after the longest prefix without an \<open>Idle\<close> item. Only the
  \<open>Update\<close> actions change an item.
\<close>

definition selectedIndex :: "AppState \<Rightarrow> nat" where
  "selectedIndex state = length (takeWhile (\<lambda>item. status item \<noteq> Idle) (queue state))"

definition performOnItem :: "action \<Rightarrow> QueueItem \<Rightarrow> QueueItem" where
  "performOnItem a item = (case a of Update updates \<Rightarrow> merge updates item | _ \<Rightarrow> item)"

definition runItem :: "StageGateway \<Rightarrow> QueueItem \<Rightarrow> QueueItem" where
  "runItem gw nextItem = fold performOnItem (processItem gw nextItem) nextItem"

text \<open>
  The selected item as it stands in the queue when \<open>processNext\<close>, called by the effect
  of the render with \<open>state\<close>, has run to its end with no other event in between.
\<close>

definition processedItem :: "StageGateway \<Rightarrow> AppState \<Rightarrow> QueueItem" where
  "processedItem gw state = queue (fst (processNext gw False state state)) ! selectedIndex state"

section \<open>Sample inputs\<close>

definition textItem :: "jsstring \<Rightarrow> jsstring \<Rightarrow> TargetLanguage \<Rightarrow> QueueItem" where
  "textItem i text lang =
     \<lparr>item_id = i, file_ref = None, fileName = [], originalText = text, translatedText = None,
      targetLanguage = lang, status = Idle, error = None, audioBuffer = None\<rparr>"

definition fileItem :: "jsstring \<Rightarrow> File \<Rightarrow> TargetLanguage \<Rightarrow> QueueItem" where
  "fileItem i f lang =
     \<lparr>item_id = i, file_ref = Some f, fileName = name f, originalText = [], translatedText = None,
      targetLanguage = lang, status = Idle, error = None, audioBuffer = None\<rparr>"

definition runningWith :: "QueueItem list \<Rightarrow> AppState" where
  "runningWith items =
     \<lparr>queue = items, selectedLanguage = CHINESE, isProcessingQueue = True, currentItemId = None,
      globalError = None, autoPlay = True\<rparr>"

text \<open>A gateway whose extraction and translation answer, and whose synthesis fails.\<close>

definition muteGateway :: StageGateway where
  "muteGateway =
     \<lparr>extractTextFromFile = (\<lambda>f. Inr [0x41, 0x42]),
      translateSafetyText = (\<lambda>text lang. Inr (text @ [0x21])),
      generateSpeech = (\<lambda>text. Inl [0x34, 0x32, 0x39])\<rparr>"

text \<open>A gateway with fixed answers, a stopped processor, and two files.\<close>

definition sampleGateway ::
  "jsstring + jsstring \<Rightarrow> jsstring + jsstring \<Rightarrow> jsstring + AudioBuffer \<Rightarrow> StageGateway" where
  "sampleGateway extracted translated spoken =
     \<lparr>extractTextFromFile = (\<lambda>f. extracted), translateSafetyText = (\<lambda>t lang. translated),
      generateSpeech = (\<lambda>t. spoken)\<rparr>"

definition stoppedWith :: "QueueItem list \<Rightarrow> AppState" where
  "stoppedWith items =
     \<lparr>queue = items, selectedLanguage = CHINESE, isProcessingQueue = False, currentItemId = None,
      globalError = None, autoPlay = True\<rparr>"

definition sampleFile :: File where
  "sampleFile = \<lparr>name = [0x61, 0x2E, 0x68, 0x77, 0x70], size_bytes = 4000000\<rparr>"

definition textFile :: File where
  "textFile = \<lparr>name = [0x61, 0x2E, 0x74, 0x78, 0x74], size_bytes = 4000000\<rparr>"

text \<open>A completed item with audio.\<close>

definition audioItem :: "jsstring \<Rightarrow> AudioBuffer \<Rightarrow> QueueItem" where
  "audioItem i buf =
     \<lparr>item_id = i, file_ref = None, fileName = [], originalText = [0x41], translatedText = Some [0x42],
      targetLanguage = ENGLISH, status = Completed, error = None, audioBuffer = Some buf\<rparr>"

section \<open>Lemmas on the queue and the pipeline\<close>

lemma item_id_applyUpdate [simp]: "item_id (applyUpdate u item) = item_id item"
  by (cases u) simp_all

lemma item_id_merge [simp]: "item_id (merge us item) = item_id item"
  unfolding merge_def by (induction us arbitrary: item) simp_all

lemma item_id_performOnItem [simp]: "item_id (performOnItem a item) = item_id item"
  by (cases a) (simp_all add: performOnItem_def)

lemma item_id_fold_performOnItem [simp]: "item_id (fold performOnItem as item) = item_id item"
  by (induction as arbitrary: item) simp_all

lemma queue_perform:
  "queue (perform i a prev) =
     map (\<lambda>item. if item_id item = i then performOnItem a item else item) (queue prev)"
  by (cases a) (simp_all add: updateItemStatus_def performOnItem_def map_idI)

lemma queue_performAll:
  "queue (performAll i as prev) =
     map (\<lambda>item. if item_id item = i then fold performOnItem as item else item) (queue prev)"
  unfolding performAll_def
proof (induction as arbitrary: prev)
  case Nil
  show ?case by (simp add: map_idI)
next
  case (Cons a as)
  show ?case
    by (simp add: Cons.IH queue_perform comp_def cong: if_cong)
qed

lemma currentItemId_perform [simp]: "currentItemId (perform i a prev) = currentItemId prev"
  by (cases a) (simp_all add: updateItemStatus_def)

lemma currentItemId_performAll: "currentItemId (performAll i as prev) = currentItemId prev"
  unfolding performAll_def by (induction as arbitrary: prev) simp_all

lemma isProcessingQueue_perform [simp]:
  "isProcessingQueue (perform i a prev) = isProcessingQueue prev"
  by (cases a) (simp_all add: updateItemStatus_def)

lemma isProcessingQueue_performAll:
  "isProcessingQueue (performAll i as prev) = isProcessingQueue prev"
  unfolding performAll_def by (induction as arbitrary: prev) simp_all

lemma scanNext_index:
  assumes "scanNext state = Some nextItem"
  shows "selectedIndex state < length (queue state)"
    and "queue state ! selectedIndex state = nextItem"
    and "status nextItem = Idle"
proof -
  let ?P = "\<lambda>item. status item = Idle"
  from assms obtain i where i: "i < length (queue state)" "?P (queue state ! i)"
    "nextItem = queue state ! i" "\<forall>j<i. \<not> ?P (queue state ! j)"
    unfolding scanNext_def find_Some_iff by blast
  have "takeWhile (\<lambda>item. status item \<noteq> Idle) (queue state) = take i (queue state)"
    using i by (intro takeWhile_eq_take_P_nth) auto
  then have "selectedIndex state = i"
    using i(1) by (simp add: selectedIndex_def)
  with i show "selectedIndex state < length (queue state)"
    and "queue state ! selectedIndex state = nextItem" and "status nextItem = Idle"
    by simp_all
qed

lemma before_selectedIndex:
  assumes "j < selectedIndex state"
  shows "status (queue state ! j) \<noteq> Idle"
  using assms nth_mem [of j "takeWhile (\<lambda>item. status item \<noteq> Idle) (queue state)"]
    takeWhile_nth [of j "\<lambda>item. status item \<noteq> Idle" "queue state"]
    set_takeWhileD [of _ "\<lambda>item. status item \<noteq> Idle" "queue state"]
  unfolding selectedIndex_def by metis

lemma processedItem_runItem:
  assumes "isProcessingQueue state" and "scanNext state = Some nextItem"
  shows "processedItem gw state = runItem gw nextItem"
  using assms scanNext_index [OF assms(2)]
  by (simp add: processedItem_def processNext_def queue_performAll runItem_def)

lemma fold_performOnItem_last:
  "fold performOnItem (as @ [Update updates]) item = merge updates (fold performOnItem as item)"
  by (simp add: performOnItem_def)

lemma extractionStage_updates:
  assumes "extractionStage gw nextItem = (a1, r)" and "Update updates \<in> set a1"
  shows "updates = [SetStatus Extracting] \<or> (\<exists>t. updates = [SetOriginalText t])"
  using assms
  by (auto simp: extractionStage_def Let_def split: option.splits sum.splits if_splits)

lemma translationStage_updates:
  assumes "translationStage gw nextItem t = (a2, r)" and "Update updates \<in> set a2"
  shows "updates = [SetStatus Translating] \<or> (\<exists>t. updates = [SetTranslatedText t])"
  using assms
  by (auto simp: translationStage_def split: sum.splits if_splits)

lemma scanNext_runningWith_single [simp]:
  "scanNext (runningWith [textItem i text lang]) = Some (textItem i text lang)"
  by (simp add: scanNext_def runningWith_def textItem_def)

lemma trim_letter [simp]: "trim [0x41] = [0x41]"
  by (simp add: trim_def isWhiteSpace_def)

lemma runningWith_simps [simp]:
  "isProcessingQueue (runningWith items)" "queue (runningWith items) = items"
  "currentItemId (runningWith items) = None"
  by (simp_all add: runningWith_def)

lemma scanNext_runningWith_file [simp]:
  "scanNext (runningWith [fileItem i f lang]) = Some (fileItem i f lang)"
  by (simp add: scanNext_def fileItem_def)

lemma extractionStage_originalText:
  assumes "extractionStage gw nextItem = (a1, Inr textToTranslate)"
  shows "originalText (fold performOnItem a1 nextItem) = textToTranslate"
  using assms
  by (auto simp: extractionStage_def Let_def performOnItem_def merge_def
      split: option.splits sum.splits if_splits)

lemma speechStage_keeps_texts:
  "originalText (fold performOnItem (speechStage gw translated) item) = originalText item \<and>
   translatedText (fold performOnItem (speechStage gw translated) item) = translatedText item"
  by (cases "generateSpeech gw translated") (simp_all add: speechStage_def performOnItem_def merge_def)

lemma speechStage_completes:
  "status (fold performOnItem (speechStage gw translated) item) = Completed"
  by (cases "generateSpeech gw translated") (simp_all add: speechStage_def performOnItem_def merge_def)

lemma speechStage_calls:
  "CallTranslate text lang \<notin> set (speechStage gw translated)"
  by (cases "generateSpeech gw translated") (simp_all add: speechStage_def)

lemma extractionStage_calls:
  "CallTranslate text lang \<notin> set (fst (extractionStage gw nextItem)) \<and>
   CallSpeech text \<notin> set (fst (extractionStage gw nextItem))"
  by (simp add: extractionStage_def Let_def split: option.split sum.split)

lemma translationStage_calls:
  "CallSpeech text \<notin> set (fst (translationStage gw nextItem t))"
  by (simp add: translationStage_def split: sum.split)

lemma fold_performOnItem_keeps_originalText:
  assumes "\<forall>updates t. Update updates \<in> set as \<longrightarrow> SetOriginalText t \<notin> set updates"
  shows "originalText (fold performOnItem as item) = originalText item"
  using assms
proof (induction as arbitrary: item)
  case Nil
  show ?case by simp
next
  case (Cons a as)
  have keep: "originalText (merge updates it) = originalText it"
    if "\<forall>t. SetOriginalText t \<notin> set updates" for updates it
    using that unfolding merge_def
  proof (induction updates arbitrary: it)
    case Nil
    show ?case by simp
  next
    case (Cons u us)
    then show ?case by (cases u) auto
  qed
  have "originalText (performOnItem a item) = originalText item"
  proof (cases a)
    case (Update updates)
    with Cons.prems keep [of updates item] show ?thesis
      by (simp add: performOnItem_def)
  qed (simp_all add: performOnItem_def)
  with Cons show ?case by simp
qed

lemma after_extraction_keeps_originalText:
  assumes "processItem gw nextItem = a1 @ rest"
    and "extractionStage gw nextItem = (a1, r)"
  shows "\<forall>updates t. Update updates \<in> set rest \<longrightarrow> SetOriginalText t \<notin> set updates"
proof -
  have sp: "\<forall>updates t. Update updates \<in> set (speechStage gw tr) \<longrightarrow> SetOriginalText t \<notin> set updates" for tr
    by (cases "generateSpeech gw tr") (auto simp: speechStage_def)
  have tr: "\<forall>updates t. Update updates \<in> set (fst (translationStage gw nextItem x)) \<longrightarrow>
      SetOriginalText t \<notin> set updates" for x
    by (auto simp: translationStage_def split: sum.splits)
  show ?thesis
  proof (cases r)
    case (Inl message)
    with assms show ?thesis by (auto simp: processItem_def catchUpdate_def)
  next
    case (Inr textToTranslate)
    note r = this
    show ?thesis
    proof (cases "contentGuard nextItem textToTranslate")
      case (Some message)
      with assms r show ?thesis by (auto simp: processItem_def catchUpdate_def)
    next
      case None
      obtain a2 r2 where t: "translationStage gw nextItem textToTranslate = (a2, r2)"
        by (cases "translationStage gw nextItem textToTranslate")
      show ?thesis
      proof (cases r2)
        case (Inl message)
        with assms r None t tr [of textToTranslate] show ?thesis
          by (auto simp: processItem_def catchUpdate_def)
      next
        case (Inr translated)
        with assms r None t tr [of textToTranslate] sp [of translated] show ?thesis
          by (auto simp: processItem_def)
      qed
    qed
  qed
qed

lemma processItem_starts_with_extraction:
  "\<exists>rest. processItem gw nextItem = fst (extractionStage gw nextItem) @ rest"
  by (cases "extractionStage gw nextItem")
    (auto simp: processItem_def split: sum.splits option.splits prod.splits)

lemma runItem_originalText:
  assumes "extractionStage gw nextItem = (a1, Inr textToTranslate)"
  shows "originalText (runItem gw nextItem) = textToTranslate"
proof -
  obtain rest where p: "processItem gw nextItem = a1 @ rest"
    using processItem_starts_with_extraction [of gw nextItem] assms by auto
  have "originalText (runItem gw nextItem) = originalText (fold performOnItem a1 nextItem)"
    unfolding runItem_def p
    using fold_performOnItem_keeps_originalText [OF after_extraction_keeps_originalText [OF p assms]]
    by simp
  with extractionStage_originalText [OF assms] show ?thesis by simp
qed

lemma status_after_extraction:
  assumes "extractionStage gw nextItem = (a1, Inr textToTranslate)"
  shows "status (runItem gw nextItem) =
           (if contentGuard nextItem textToTranslate \<noteq> None \<or>
               isl (snd (translationStage gw nextItem textToTranslate))
            then Error else Completed)"
proof (cases "contentGuard nextItem textToTranslate")
  case (Some message)
  with assms have "processItem gw nextItem = a1 @ [catchUpdate message]"
    by (simp add: processItem_def)
  then have "runItem gw nextItem = merge [SetStatus Error,
      SetError (Some (if message = [] then defaultErrorMsg else message))] (fold performOnItem a1 nextItem)"
    unfolding runItem_def catchUpdate_def by (simp only: fold_performOnItem_last)
  with Some show ?thesis by (simp add: merge_def)
next
  case None
  obtain a2 r2 where t: "translationStage gw nextItem textToTranslate = (a2, r2)"
    by (cases "translationStage gw nextItem textToTranslate")
  show ?thesis
  proof (cases r2)
    case (Inl message)
    with assms None t have "processItem gw nextItem = (a1 @ a2) @ [catchUpdate message]"
      by (simp add: processItem_def)
    then have "runItem gw nextItem = merge [SetStatus Error,
        SetError (Some (if message = [] then defaultErrorMsg else message))]
        (fold performOnItem (a1 @ a2) nextItem)"
      unfolding runItem_def catchUpdate_def by (simp only: fold_performOnItem_last)
    with None t Inl show ?thesis by (simp add: merge_def)
  next
    case (Inr translated)
    with assms None t have "processItem gw nextItem = a1 @ a2 @ speechStage gw translated"
      by (simp add: processItem_def)
    then have "status (runItem gw nextItem) = Completed"
      unfolding runItem_def by (simp add: speechStage_completes)
    with None t Inr show ?thesis by simp
  qed
qed

lemma fold_performOnItem_keeps_audioBuffer:
  assumes "\<forall>updates b. Update updates \<in> set as \<longrightarrow> SetAudioBuffer b \<notin> set updates"
  shows "audioBuffer (fold performOnItem as item) = audioBuffer item"
  using assms
proof (induction as arbitrary: item)
  case Nil
  show ?case by simp
next
  case (Cons a as)
  have keep: "audioBuffer (merge updates it) = audioBuffer it"
    if "\<forall>b. SetAudioBuffer b \<notin> set updates" for updates it
    using that unfolding merge_def
  proof (induction updates arbitrary: it)
    case Nil
    show ?case by simp
  next
    case (Cons u us)
    then show ?case by (cases u) auto
  qed
  have "audioBuffer (performOnItem a item) = audioBuffer item"
  proof (cases a)
    case (Update updates)
    with Cons.prems keep [of updates item] show ?thesis
      by (simp add: performOnItem_def)
  qed (simp_all add: performOnItem_def)
  with Cons show ?case by simp
qed

lemma hardFailure_actions:
  assumes "hardFailure gw nextItem"
  shows "\<exists>as message. processItem gw nextItem = as @ [catchUpdate message] \<and>
           (\<forall>t. CallSpeech t \<notin> set as) \<and>
           (\<forall>updates b. Update updates \<in> set as \<longrightarrow> SetAudioBuffer b \<notin> set updates)"
proof -
  obtain a1 r1 where e: "extractionStage gw nextItem = (a1, r1)"
    by (cases "extractionStage gw nextItem")
  have a1: "\<forall>t. CallSpeech t \<notin> set a1"
    using extractionStage_calls [of _ _ gw nextItem] e by simp
  have a1': "\<forall>updates b. Update updates \<in> set a1 \<longrightarrow> SetAudioBuffer b \<notin> set updates"
    using extractionStage_updates [OF e] by fastforce
  show ?thesis
  proof (cases r1)
    case (Inl message)
    with e have "processItem gw nextItem = a1 @ [catchUpdate message]"
      by (simp add: processItem_def)
    with a1 a1' show ?thesis by blast
  next
    case (Inr textToTranslate)
    note r1 = this
    show ?thesis
    proof (cases "contentGuard nextItem textToTranslate")
      case (Some message)
      with e r1 have "processItem gw nextItem = a1 @ [catchUpdate message]"
        by (simp add: processItem_def)
      with a1 a1' show ?thesis by blast
    next
      case None
      obtain a2 r2 where t: "translationStage gw nextItem textToTranslate = (a2, r2)"
        by (cases "translationStage gw nextItem textToTranslate")
      have a2: "\<forall>t. CallSpeech t \<notin> set a2"
        using translationStage_calls [of _ gw nextItem textToTranslate] t by simp
      have a2': "\<forall>updates b. Update updates \<in> set a2 \<longrightarrow> SetAudioBuffer b \<notin> set updates"
        using translationStage_updates [OF t] by fastforce
      show ?thesis
      proof (cases r2)
        case (Inl message)
        with e r1 None t have "processItem gw nextItem = (a1 @ a2) @ [catchUpdate message]"
          by (simp add: processItem_def)
        moreover have "\<forall>t. CallSpeech t \<notin> set (a1 @ a2)"
          using a1 a2 by simp
        moreover have "\<forall>updates b. Update updates \<in> set (a1 @ a2) \<longrightarrow> SetAudioBuffer b \<notin> set updates"
          using a1' a2' by auto
        ultimately show ?thesis by blast
      next
        case (Inr translated)
        with assms e r1 None t show ?thesis
          by (simp add: hardFailure_def)
      qed
    qed
  qed
qed

lemma newItems_contains:
  assumes "f \<in> set files" and "isValidFileType toLowerCase f"
  shows "\<exists>k'. \<lparr>item_id = generateId k', file_ref = Some f, fileName = name f, originalText = [],
             translatedText = None, targetLanguage = lang, status = Idle, error = None,
             audioBuffer = None\<rparr> \<in> set (newItems toLowerCase generateId lang k files)"
  using assms
proof (induction files arbitrary: k)
  case Nil
  then show ?case by simp
next
  case (Cons g files)
  show ?case
  proof (cases "g = f")
    case True
    with Cons.prems(2) show ?thesis by auto
  next
    case False
    with Cons.prems have "f \<in> set files" by simp
    from Cons.IH [OF this Cons.prems(2)] show ?thesis
      by (cases "isValidFileType toLowerCase g") auto
  qed
qed

lemma length_newItems:
  "length (newItems toLowerCase generateId lang k files) =
     length (filter (isValidFileType toLowerCase) files)"
  by (induction files arbitrary: k) simp_all

section \<open>Lemmas on the player\<close>

lemma sessionInvariant_iff:
  "sessionInvariant (state, p) \<longleftrightarrow>
     \<not> suspended p \<and>
     (isPaused p \<longrightarrow> audioSource p = None) \<and>
     (emitting p = [] \<or> (\<exists>src. audioSource p = Some src \<and> emitting p = [src])) \<and>
     (\<forall>i. playingItemId p = Some i \<longrightarrow> i \<in> item_id ` set (queue state))"
  by (auto simp: sessionInvariant_def split: option.splits)

lemma halt_single [simp]: "halt src [src] = []" "halt src [] = []"
  by (simp_all add: halt_def)

lemma stopAudio_fields [simp]:
  "audioSource (stopAudio p) = None" "playingItemId (stopAudio p) = None"
  "isPaused (stopAudio p) = False" "offset (stopAudio p) = 0"
  "playbackProgress (stopAudio p) = 0" "animationFrame (stopAudio p) = False"
  "created (stopAudio p) = created p" "suspended (stopAudio p) = suspended p"
  "awaiting (stopAudio p) = awaiting p"
  by (simp_all add: stopAudio_def)

lemma stopAudio_emitting:
  assumes "emitting p = [] \<or> (\<exists>src. audioSource p = Some src \<and> emitting p = [src])"
  shows "emitting (stopAudio p) = []"
  using assms by (auto simp: stopAudio_def split: option.splits)

lemma playAudio_fresh:
  assumes "emitting p = [] \<or> (\<exists>src. audioSource p = Some src \<and> emitting p = [src])"
    and "\<not> suspended p"
  shows "audioSource (playAudio buf i False now p) =
           Some \<lparr>node = created p, buffer = buf, onended = Some (isPaused p), startedAt = 0\<rparr>"
    and "emitting (playAudio buf i False now p) =
           [\<lparr>node = created p, buffer = buf, onended = Some (isPaused p), startedAt = 0\<rparr>]"
    and "playingItemId (playAudio buf i False now p) = Some i"
    and "isPaused (playAudio buf i False now p) = False"
    and "offset (playAudio buf i False now p) = 0"
    and "suspended (playAudio buf i False now p) = False"
proof -
  let ?p1 = "if truthy (playingItemId p) \<and> playingItemId p \<noteq> Some i then stopAudio p else p"
  let ?p2 = "if audioSource ?p1 \<noteq> None then stopAudio ?p1 else ?p1"
  have p1: "emitting ?p1 = [] \<or> (\<exists>src. audioSource ?p1 = Some src \<and> emitting ?p1 = [src])"
    using assms(1) stopAudio_emitting [OF assms(1)] by simp
  have p2: "emitting ?p2 = []" "audioSource ?p2 = None" "created ?p2 = created p"
    "suspended ?p2 = False"
    using p1 stopAudio_emitting [OF p1] assms(2) by auto
  have play: "playAudio buf i False now p = startSource buf i False (isPaused p) now ?p2"
    using p2(4) by (simp add: playAudio_def Let_def)
  show "audioSource (playAudio buf i False now p) =
           Some \<lparr>node = created p, buffer = buf, onended = Some (isPaused p), startedAt = 0\<rparr>"
    and "emitting (playAudio buf i False now p) =
           [\<lparr>node = created p, buffer = buf, onended = Some (isPaused p), startedAt = 0\<rparr>]"
    and "playingItemId (playAudio buf i False now p) = Some i"
    and "isPaused (playAudio buf i False now p) = False"
    and "offset (playAudio buf i False now p) = 0"
    and "suspended (playAudio buf i False now p) = False"
    unfolding play using p2 by (simp_all add: startSource_def Let_def)
qed

lemma playAudio_resume:
  assumes "audioSource p = None" and "emitting p = []" and "\<not> suspended p"
  shows "audioSource (playAudio buf i True now p) =
           Some \<lparr>node = created p, buffer = buf, onended = Some (isPaused p), startedAt = offset p\<rparr>"
    and "emitting (playAudio buf i True now p) =
           [\<lparr>node = created p, buffer = buf, onended = Some (isPaused p), startedAt = offset p\<rparr>]"
    and "playingItemId (playAudio buf i True now p) = Some i"
    and "isPaused (playAudio buf i True now p) = False"
    and "offset (playAudio buf i True now p) = offset p"
    and "startTime (playAudio buf i True now p) = now"
    and "suspended (playAudio buf i True now p) = False"
  using assms
  by (simp_all add: playAudio_def startSource_def Let_def)

lemma sessionInvariant_stopAudio:
  assumes "sessionInvariant (state, p)"
  shows "sessionInvariant (state', stopAudio p)"
  using assms stopAudio_emitting [of p] by (auto simp: sessionInvariant_iff)

lemma sessionInvariant_playButton:
  assumes "sessionInvariant (state, p)" and "item \<in> set (queue state)"
  shows "sessionInvariant (state, playButton item now p)"
proof -
  from assms(1) have inv: "isPaused p \<longrightarrow> audioSource p = None"
    "emitting p = [] \<or> (\<exists>src. audioSource p = Some src \<and> emitting p = [src])"
    "\<forall>i. playingItemId p = Some i \<longrightarrow> i \<in> item_id ` set (queue state)"
    "\<not> suspended p"
    by (simp_all add: sessionInvariant_iff)
  have fresh: "sessionInvariant (state, playAudio buf (item_id item) False now p)" for buf
    using playAudio_fresh [OF inv(2,4), of buf "item_id item" now] assms(2)
    by (simp add: sessionInvariant_iff)
  have resume: "sessionInvariant (state, playAudio buf (item_id item) True now p)"
    if "isPaused p" for buf
  proof -
    from that inv have "audioSource p = None" "emitting p = []" by auto
    from playAudio_resume [OF this inv(4), of buf "item_id item" now] assms(2) show ?thesis
      by (simp add: sessionInvariant_iff)
  qed
  have pause: "sessionInvariant (state, pauseAudio now p)"
    using inv by (auto simp: sessionInvariant_iff pauseAudio_def split: option.splits)
  show ?thesis
    using fresh resume pause assms(1)
    by (simp add: playButton_def split: option.split)
qed

lemma sessionInvariant_finished:
  assumes "sessionInvariant (state, p)"
  shows "sessionInvariant (state, finished n p)"
proof -
  from assms have inv: "isPaused p \<longrightarrow> audioSource p = None"
    "emitting p = [] \<or> (\<exists>src. audioSource p = Some src \<and> emitting p = [src])"
    "\<forall>i. playingItemId p = Some i \<longrightarrow> i \<in> item_id ` set (queue state)"
    "\<not> suspended p"
    by (simp_all add: sessionInvariant_iff)
  show ?thesis
  proof (cases "find (\<lambda>src. node src = n) (emitting p)")
    case None
    with assms show ?thesis by (simp add: finished_def)
  next
    case (Some src)
    with inv(2) have e: "audioSource p = Some src" "emitting p = [src]"
      by (auto split: if_splits)
    let ?p' = "p\<lparr>emitting := halt src (emitting p)\<rparr>"
    have p': "sessionInvariant (state, ?p')"
      using inv e by (simp add: sessionInvariant_iff)
    have "finished n p = ?p' \<or> finished n p = stopAudio ?p'"
      using Some by (simp add: finished_def Let_def split: option.split)
    with p' sessionInvariant_stopAudio [OF p', of state] show ?thesis
      by auto
  qed
qed

lemma sessionInvariant_removeFromQueue:
  assumes "sessionInvariant (state, p)"
  shows "sessionInvariant (removeFromQueue i (state, p))"
proof (cases "playingItemId p = Some i")
  case True
  then show ?thesis
    using sessionInvariant_stopAudio [OF assms] by (simp add: removeFromQueue_def)
next
  case False
  with assms show ?thesis
    by (auto simp: removeFromQueue_def sessionInvariant_iff)
qed

lemma reachable_sessionInvariant:
  assumes "reachableFrom initialPlayer app"
  shows "sessionInvariant app"
  using assms
proof (induction rule: reachableFrom.induct)
  case start
  show ?case by (simp add: sessionInvariant_iff initialPlayer_def initialState_def)
next
  case (add state p items)
  then show ?case by (auto simp: sessionInvariant_iff addToQueue_def)
next
  case (update state p i updates)
  have "map item_id (queue (updateItemStatus i updates state)) = map item_id (queue state)"
    by (simp add: updateItemStatus_def comp_def if_distrib [of item_id])
  then have "item_id ` set (queue (updateItemStatus i updates state)) = item_id ` set (queue state)"
    by (metis set_map)
  with update show ?case by (simp add: sessionInvariant_iff)
next
  case (remove state p i)
  from remove.IH show ?case by (rule sessionInvariant_removeFromQueue)
next
  case (clear state p)
  then show ?case
    using sessionInvariant_stopAudio by (simp add: clearQueue_def)
next
  case (button state p item now)
  from button.IH button.hyps(2) show ?case by (rule sessionInvariant_playButton)
next
  case (stop state p)
  from stop.IH show ?case by (rule sessionInvariant_stopAudio)
next
  case (ended state p n)
  from ended.IH show ?case by (rule sessionInvariant_finished)
next
  case (tick state p buf now)
  then show ?case
    by (auto simp: sessionInvariant_iff updateProgress_def Let_def split: option.splits)
next
  case (resolved state p now)
  then show ?case by (simp add: sessionInvariant_iff)
next
  case (control state p running current)
  then show ?case by (simp add: sessionInvariant_iff)
next
  case (other state p lang message)
  then show ?case by (simp add: sessionInvariant_iff)
qed

section \<open>The scan\<close>

text \<open>
  One scan. While the guard of \<open>processNext\<close> passes, the scan returns an item exactly
  when the queue has an \<open>Idle\<close> item, and then it is the first of them in the order of the
  queue, which is the order of insertion, as \<open>addToQueue\<close> appends: the selected item is
  \<open>Idle\<close>, no item before it is, and it becomes the current item. A call that finds no
  \<open>Idle\<close> item sets \<open>isProcessingQueue\<close> to false, clears \<open>currentItemId\<close> and sets no
  timer.
\<close>

lemma scan_selects_first_idle:
  assumes "isProcessingQueue state"
  shows "(\<forall>nextItem. scanNext state = Some nextItem \<longrightarrow>
            selectedIndex state < length (queue state) \<and>
            queue state ! selectedIndex state = nextItem \<and>
            status nextItem = Idle \<and> status nextItem \<noteq> Error \<and> status nextItem \<noteq> Completed \<and>
            (\<forall>j < selectedIndex state. status (queue state ! j) \<noteq> Idle) \<and>
            currentItemId (fst (processNext gw False state state)) = Some (item_id nextItem)) \<and>
         ((\<exists>item \<in> set (queue state). status item = Idle) \<longrightarrow>
            scanNext state = Some (queue state ! selectedIndex state)) \<and>
         ((\<forall>item \<in> set (queue state). status item \<noteq> Idle) \<longrightarrow>
            scanNext state = None \<and>
            processNext gw False state prev =
              (prev\<lparr>isProcessingQueue := False, currentItemId := None\<rparr>, False)) \<and>
         queue (addToQueue items state) = queue state @ items"
proof -
  have part1: "selectedIndex state < length (queue state) \<and>
            queue state ! selectedIndex state = nextItem \<and>
            status nextItem = Idle \<and> status nextItem \<noteq> Error \<and> status nextItem \<noteq> Completed \<and>
            (\<forall>j < selectedIndex state. status (queue state ! j) \<noteq> Idle) \<and>
            currentItemId (fst (processNext gw False state state)) = Some (item_id nextItem)"
    if scan: "scanNext state = Some nextItem" for nextItem
  proof -
    have "currentItemId (fst (processNext gw False state state)) = Some (item_id nextItem)"
      using assms scan by (simp add: processNext_def currentItemId_performAll)
    then show ?thesis
      using scanNext_index [OF scan] before_selectedIndex by simp
  qed
  have found: "scanNext state = Some (queue state ! selectedIndex state)"
    if "\<exists>item \<in> set (queue state). status item = Idle"
  proof -
    from that have "scanNext state \<noteq> None"
      by (auto simp: scanNext_def find_None_iff)
    then obtain nextItem where scan: "scanNext state = Some nextItem"
      by blast
    with scanNext_index(2) [OF scan] show ?thesis
      by simp
  qed
  have part2: "scanNext state = None \<and> processNext gw False state prev =
      (prev\<lparr>isProcessingQueue := False, currentItemId := None\<rparr>, False)"
    if "\<forall>item \<in> set (queue state). status item \<noteq> Idle"
  proof -
    from that have "scanNext state = None"
      by (simp add: scanNext_def find_None_iff)
    then show ?thesis
      using assms by (simp add: processNext_def)
  qed
  have part3: "queue (addToQueue items state) = queue state @ items"
    by (simp add: addToQueue_def)
  from part1 found part2 part3 show ?thesis by blast
qed

text \<open>A scan passes over a completed and a failed item and takes the first of two idle ones.\<close>

lemma scan_on_a_mixed_queue:
  "scanNext (runningWith
      [(textItem [0x61] [0x41] KOREAN)\<lparr>status := Completed\<rparr>,
       (textItem [0x62] [0x41] KOREAN)\<lparr>status := Error\<rparr>,
       textItem [0x63] [0x41] KOREAN, textItem [0x64] [0x41] KOREAN]) =
     Some (textItem [0x63] [0x41] KOREAN) \<and>
   selectedIndex (runningWith
      [(textItem [0x61] [0x41] KOREAN)\<lparr>status := Completed\<rparr>,
       (textItem [0x62] [0x41] KOREAN)\<lparr>status := Error\<rparr>,
       textItem [0x63] [0x41] KOREAN, textItem [0x64] [0x41] KOREAN]) = 2"
  by (simp add: scanNext_def selectedIndex_def runningWith_def textItem_def)

section \<open>Soft failure of speech synthesis\<close>

text \<open>
  C1. Let the running processor select an item whose extraction, where it is needed,
  succeeds, whose text passes the content guard, whose translation succeeds and whose
  speech synthesis fails. When the pipeline has run, the item is \<open>Completed\<close>, its
  \<open>audioBuffer\<close> is absent and its \<open>error\<close> holds the synthesis-failure note; no update
  made for the item sets its status to \<open>Error\<close>.
\<close>

theorem synthesis_failure_is_soft:
  assumes "isProcessingQueue state" and "scanNext state = Some nextItem"
    and "extractionStage gw nextItem = (a1, Inr textToTranslate)"
    and "contentGuard nextItem textToTranslate = None"
    and "translationStage gw nextItem textToTranslate = (a2, Inr translated)"
    and "generateSpeech gw translated = Inl ttsError"
  shows "status (processedItem gw state) = Completed \<and>
         audioBuffer (processedItem gw state) = None \<and>
         error (processedItem gw state) = Some speechFailedNote \<and>
         (\<forall>updates. Update updates \<in> set (processItem gw nextItem) \<longrightarrow>
            SetStatus Error \<notin> set updates)"
proof -
  let ?final = "[SetStatus Completed, SetAudioBuffer None, SetError (Some speechFailedNote)]"
  let ?before = "a1 @ a2 @ [Update [SetStatus Speaking], CallSpeech translated, LogTtsError ttsError]"
  have item: "processedItem gw state = runItem gw nextItem"
    using assms(1,2) by (rule processedItem_runItem)
  have acts: "processItem gw nextItem = ?before @ [Update ?final]"
    using assms(3-6) by (simp add: processItem_def speechStage_def)
  have "runItem gw nextItem = merge ?final (fold performOnItem ?before nextItem)"
    unfolding runItem_def acts by (rule fold_performOnItem_last)
  then have fields: "status (runItem gw nextItem) = Completed"
    "audioBuffer (runItem gw nextItem) = None"
    "error (runItem gw nextItem) = Some speechFailedNote"
    by (simp_all add: merge_def)
  have "SetStatus Error \<notin> set updates"
    if "Update updates \<in> set (processItem gw nextItem)" for updates
    using that extractionStage_updates [OF assms(3), of updates]
      translationStage_updates [OF assms(5), of updates]
    unfolding acts by auto
  with item fields show ?thesis by simp
qed

theorem synthesis_failure_is_soft_witness:
  "isProcessingQueue (runningWith [textItem [0x61] [0x41] ENGLISH]) \<and>
   scanNext (runningWith [textItem [0x61] [0x41] ENGLISH]) = Some (textItem [0x61] [0x41] ENGLISH) \<and>
   extractionStage muteGateway (textItem [0x61] [0x41] ENGLISH) = ([], Inr [0x41]) \<and>
   contentGuard (textItem [0x61] [0x41] ENGLISH) [0x41] = None \<and>
   snd (translationStage muteGateway (textItem [0x61] [0x41] ENGLISH) [0x41]) = Inr [0x41, 0x21] \<and>
   generateSpeech muteGateway [0x41, 0x21] = Inl [0x34, 0x32, 0x39] \<and>
   status (processedItem muteGateway (runningWith [textItem [0x61] [0x41] ENGLISH])) = Completed \<and>
   audioBuffer (processedItem muteGateway (runningWith [textItem [0x61] [0x41] ENGLISH])) = None \<and>
   error (processedItem muteGateway (runningWith [textItem [0x61] [0x41] ENGLISH])) = Some speechFailedNote"
proof -
  let ?it = "textItem [0x61] [0x41] ENGLISH"
  have h1: "isProcessingQueue (runningWith [?it])"
    by (simp add: runningWith_def)
  have h2: "scanNext (runningWith [?it]) = Some ?it"
    by simp
  have h3: "extractionStage muteGateway ?it = ([], Inr [0x41])"
    by (simp add: extractionStage_def textItem_def)
  have h4: "contentGuard ?it [0x41] = None"
    by (simp add: contentGuard_def)
  have h5: "translationStage muteGateway ?it [0x41] =
      ([Update [SetStatus Translating], CallTranslate [0x41] ENGLISH,
        Update [SetTranslatedText [0x41, 0x21]]], Inr [0x41, 0x21])"
    by (simp add: translationStage_def textItem_def muteGateway_def)
  have h6: "generateSpeech muteGateway [0x41, 0x21] = Inl [0x34, 0x32, 0x39]"
    by (simp add: muteGateway_def)
  show ?thesis
    using synthesis_failure_is_soft [OF h1 h2 h3 h4 h5 h6] h1 h2 h3 h4 h5 h6 by simp
qed

section \<open>Full success\<close>

text \<open>
  C3. Let the running processor select an item whose extraction, where it is needed,
  succeeds, whose text passes the content guard, and whose translation and speech
  synthesis succeed. When the pipeline has run, the item is \<open>Completed\<close>, its
  \<open>audioBuffer\<close> is the synthesized buffer and its \<open>error\<close> is absent.
\<close>

theorem full_success:
  assumes "isProcessingQueue state" and "scanNext state = Some nextItem"
    and "extractionStage gw nextItem = (a1, Inr textToTranslate)"
    and "contentGuard nextItem textToTranslate = None"
    and "translationStage gw nextItem textToTranslate = (a2, Inr translated)"
    and "generateSpeech gw translated = Inr buf"
  shows "status (processedItem gw state) = Completed \<and>
         audioBuffer (processedItem gw state) = Some buf \<and>
         error (processedItem gw state) = None"
proof -
  let ?final = "[SetStatus Completed, SetAudioBuffer (Some buf), SetError None]"
  let ?before = "a1 @ a2 @ [Update [SetStatus Speaking], CallSpeech translated]"
  have item: "processedItem gw state = runItem gw nextItem"
    using assms(1,2) by (rule processedItem_runItem)
  have acts: "processItem gw nextItem = ?before @ [Update ?final]"
    using assms(3-6) by (simp add: processItem_def speechStage_def)
  have "runItem gw nextItem = merge ?final (fold performOnItem ?before nextItem)"
    unfolding runItem_def acts by (rule fold_performOnItem_last)
  with item show ?thesis
    by (simp add: merge_def)
qed

theorem full_success_witness:
  "isProcessingQueue (runningWith [textItem [0x61] [0x41] ENGLISH]) \<and>
   scanNext (runningWith [textItem [0x61] [0x41] ENGLISH]) = Some (textItem [0x61] [0x41] ENGLISH) \<and>
   status (processedItem (sampleGateway (Inr []) (Inr [0x42]) (Inr \<lparr>duration = 2\<rparr>))
      (runningWith [textItem [0x61] [0x41] ENGLISH])) = Completed \<and>
   audioBuffer (processedItem (sampleGateway (Inr []) (Inr [0x42]) (Inr \<lparr>duration = 2\<rparr>))
      (runningWith [textItem [0x61] [0x41] ENGLISH])) = Some \<lparr>duration = 2\<rparr> \<and>
   error (processedItem (sampleGateway (Inr []) (Inr [0x42]) (Inr \<lparr>duration = 2\<rparr>))
      (runningWith [textItem [0x61] [0x41] ENGLISH])) = None"
proof -
  let ?it = "textItem [0x61] [0x41] ENGLISH"
  let ?gw = "sampleGateway (Inr []) (Inr [0x42]) (Inr \<lparr>duration = 2\<rparr>)"
  have h1: "isProcessingQueue (runningWith [?it])"
    by simp
  have h2: "scanNext (runningWith [?it]) = Some ?it"
    by simp
  have h3: "extractionStage ?gw ?it = ([], Inr [0x41])"
    by (simp add: extractionStage_def textItem_def)
  have h4: "contentGuard ?it [0x41] = None"
    by (simp add: contentGuard_def)
  have h5: "translationStage ?gw ?it [0x41] =
      ([Update [SetStatus Translating], CallTranslate [0x41] ENGLISH,
        Update [SetTranslatedText [0x42]]], Inr [0x42])"
    by (simp add: translationStage_def textItem_def sampleGateway_def)
  have h6: "generateSpeech ?gw [0x42] = Inr \<lparr>duration = 2\<rparr>"
    by (simp add: sampleGateway_def)
  show ?thesis
    using full_success [OF h1 h2 h3 h4 h5 h6] h1 h2 by simp
qed

section \<open>The no-translation language\<close>

text \<open>
  C8. Let the running processor select an item whose text reaches the translation stage.
  If its target language is Korean, the pipeline makes no call of the translation service:
  it waits 300 ms and stores the text unchanged, so that the item ends \<open>Completed\<close>
  with \<open>translatedText\<close> equal to its \<open>originalText\<close>. For every other target
  language the pipeline calls the translation service on the text.
\<close>

theorem korean_is_copied_through:
  assumes "isProcessingQueue state" and "scanNext state = Some nextItem"
    and "extractionStage gw nextItem = (a1, Inr textToTranslate)"
    and "contentGuard nextItem textToTranslate = None"
  shows "(targetLanguage nextItem = KOREAN \<longrightarrow>
            (\<forall>text lang. CallTranslate text lang \<notin> set (processItem gw nextItem)) \<and>
            Sleep 300 \<in> set (processItem gw nextItem) \<and>
            status (processedItem gw state) = Completed \<and>
            translatedText (processedItem gw state) = Some textToTranslate \<and>
            originalText (processedItem gw state) = textToTranslate) \<and>
         (targetLanguage nextItem \<noteq> KOREAN \<longrightarrow>
            CallTranslate textToTranslate (targetLanguage nextItem) \<in> set (processItem gw nextItem))"
proof (intro conjI impI)
  assume ko: "targetLanguage nextItem = KOREAN"
  let ?a2 = "[Update [SetStatus Translating], Sleep 300, Update [SetTranslatedText textToTranslate]]"
  have item: "processedItem gw state = runItem gw nextItem"
    using assms(1,2) by (rule processedItem_runItem)
  have acts: "processItem gw nextItem = a1 @ ?a2 @ speechStage gw textToTranslate"
    using assms(3,4) ko by (simp add: processItem_def translationStage_def)
  have a1: "CallTranslate t lang \<notin> set a1" for t lang
    using extractionStage_calls [of t lang gw nextItem] assms(3) by simp
  show "\<forall>text lang. CallTranslate text lang \<notin> set (processItem gw nextItem)"
    unfolding acts using a1 speechStage_calls by simp
  show "Sleep 300 \<in> set (processItem gw nextItem)"
    unfolding acts by simp
  let ?mid = "fold performOnItem ?a2 (fold performOnItem a1 nextItem)"
  have run: "runItem gw nextItem = fold performOnItem (speechStage gw textToTranslate) ?mid"
    unfolding runItem_def acts by simp
  have mid: "originalText ?mid = textToTranslate" "translatedText ?mid = Some textToTranslate"
    using extractionStage_originalText [OF assms(3)]
    by (simp_all add: performOnItem_def merge_def)
  show "status (processedItem gw state) = Completed"
    unfolding item run by (rule speechStage_completes)
  show "translatedText (processedItem gw state) = Some textToTranslate"
    unfolding item run using speechStage_keeps_texts [of gw textToTranslate ?mid] mid by simp
  show "originalText (processedItem gw state) = textToTranslate"
    unfolding item run using speechStage_keeps_texts [of gw textToTranslate ?mid] mid by simp
next
  assume nko: "targetLanguage nextItem \<noteq> KOREAN"
  show "CallTranslate textToTranslate (targetLanguage nextItem) \<in> set (processItem gw nextItem)"
    using assms(3,4) nko
    by (cases "translateSafetyText gw textToTranslate (targetLanguage nextItem)")
      (simp_all add: processItem_def translationStage_def)
qed

theorem korean_is_copied_through_witness:
  "targetLanguage (textItem [0x61] [0x41] KOREAN) = KOREAN \<and>
   contentGuard (textItem [0x61] [0x41] KOREAN) [0x41] = None \<and>
   Sleep 300 \<in> set (processItem muteGateway (textItem [0x61] [0x41] KOREAN)) \<and>
   status (processedItem muteGateway (runningWith [textItem [0x61] [0x41] KOREAN])) = Completed \<and>
   translatedText (processedItem muteGateway (runningWith [textItem [0x61] [0x41] KOREAN])) = Some [0x41] \<and>
   originalText (processedItem muteGateway (runningWith [textItem [0x61] [0x41] KOREAN])) = [0x41] \<and>
   targetLanguage (textItem [0x61] [0x41] ENGLISH) \<noteq> KOREAN \<and>
   CallTranslate [0x41] ENGLISH \<in> set (processItem muteGateway (textItem [0x61] [0x41] ENGLISH))"
proof -
  have h1: "isProcessingQueue (runningWith [textItem [0x61] [0x41] lang])" for lang
    by simp
  have h2: "scanNext (runningWith [textItem [0x61] [0x41] lang]) = Some (textItem [0x61] [0x41] lang)" for lang
    by simp
  have h3: "extractionStage muteGateway (textItem [0x61] [0x41] lang) = ([], Inr [0x41])" for lang
    by (simp add: extractionStage_def textItem_def)
  have h4: "contentGuard (textItem [0x61] [0x41] lang) [0x41] = None" for lang
    by (simp add: contentGuard_def)
  have l: "targetLanguage (textItem [0x61] [0x41] lang) = lang" for lang
    by (simp add: textItem_def)
  show ?thesis
    using korean_is_copied_through [OF h1 h2 h3 h4, of KOREAN]
      korean_is_copied_through [OF h1 h2 h3 h4, of ENGLISH] h4 [of KOREAN]
    by (simp add: l)
qed

section \<open>The maximum input length\<close>

text \<open>
  C9. Let the running processor select an item that needs extraction, and let the
  extraction succeed. If the extracted text is longer than \<open>MAX_INPUT_LENGTH\<close> = 10000,
  the \<open>originalText\<close> stored for the item is the first 10000 code units of it, of length
  exactly 10000, and the item is not rejected for its length: the extraction stage hands the
  clipped text on, and the item ends in \<open>Error\<close> only if a content guard or the translation
  rejects the clipped text. A text of at most 10000 code units is stored as it is.
\<close>

theorem long_documents_are_clipped:
  assumes "isProcessingQueue state" and "scanNext state = Some nextItem"
    and "file_ref nextItem = Some f" and "originalText nextItem = []"
    and "extractTextFromFile gw f = Inr extracted"
  shows "(length extracted > MAX_INPUT_LENGTH \<longrightarrow>
            originalText (processedItem gw state) = take 10000 extracted \<and>
            length (originalText (processedItem gw state)) = 10000 \<and>
            snd (extractionStage gw nextItem) = Inr (take 10000 extracted) \<and>
            (status (processedItem gw state) = Error \<longrightarrow>
               contentGuard nextItem (take 10000 extracted) \<noteq> None \<or>
               isl (snd (translationStage gw nextItem (take 10000 extracted))))) \<and>
         (length extracted \<le> MAX_INPUT_LENGTH \<longrightarrow>
            originalText (processedItem gw state) = extracted \<and>
            snd (extractionStage gw nextItem) = Inr extracted)"
proof -
  let ?clipped = "if length extracted > MAX_INPUT_LENGTH then take MAX_INPUT_LENGTH extracted else extracted"
  have item: "processedItem gw state = runItem gw nextItem"
    using assms(1,2) by (rule processedItem_runItem)
  obtain a1 where e: "extractionStage gw nextItem = (a1, Inr ?clipped)"
    using assms(3-5) by (simp add: extractionStage_def Let_def)
  have long: "?clipped = take 10000 extracted" "length (take 10000 extracted) = 10000"
    if "length extracted > MAX_INPUT_LENGTH"
    using that by (simp_all add: MAX_INPUT_LENGTH_def)
  have short: "?clipped = extracted" if "length extracted \<le> MAX_INPUT_LENGTH"
    using that by simp
  from runItem_originalText [OF e] status_after_extraction [OF e] item e long short
  show ?thesis
    by (simp split: if_splits)
qed

theorem long_documents_are_clipped_witness:
  "file_ref (fileItem [0x61] textFile ENGLISH) = Some textFile \<and>
   originalText (fileItem [0x61] textFile ENGLISH) = [] \<and>
   length (replicate 10001 (0x41 :: 16 word)) > MAX_INPUT_LENGTH \<and>
   originalText (processedItem (sampleGateway (Inr (replicate 10001 0x41)) (Inr [0x42]) (Inl [0x78]))
      (runningWith [fileItem [0x61] textFile ENGLISH])) = replicate 10000 0x41 \<and>
   length (originalText (processedItem (sampleGateway (Inr (replicate 10001 0x41)) (Inr [0x42]) (Inl [0x78]))
      (runningWith [fileItem [0x61] textFile ENGLISH]))) = 10000 \<and>
   length (replicate 3 (0x41 :: 16 word)) \<le> MAX_INPUT_LENGTH \<and>
   originalText (processedItem (sampleGateway (Inr (replicate 3 0x41)) (Inr [0x42]) (Inl [0x78]))
      (runningWith [fileItem [0x61] textFile ENGLISH])) = replicate 3 0x41"
proof -
  let ?it = "fileItem [0x61] textFile ENGLISH"
  have h1: "isProcessingQueue (runningWith [?it])"
    by simp
  have h2: "scanNext (runningWith [?it]) = Some ?it"
    by simp
  have h3: "file_ref ?it = Some textFile"
    by (simp add: fileItem_def)
  have h4: "originalText ?it = []"
    by (simp add: fileItem_def)
  have h5: "extractTextFromFile (sampleGateway (Inr t) (Inr [0x42]) (Inl [0x78])) textFile = Inr t" for t
    by (simp add: sampleGateway_def)
  show ?thesis
    using long_documents_are_clipped [OF h1 h2 h3 h4 h5, of "replicate 10001 0x41"]
      long_documents_are_clipped [OF h1 h2 h3 h4 h5, of "replicate 3 0x41"] h3 h4
    by (simp add: MAX_INPUT_LENGTH_def)
qed

section \<open>Hard failures, the next item and the last item\<close>

text \<open>
  A hard failure (extraction, content guard or translation) ends the item in \<open>Error\<close>
  with a non-empty message; the pipeline does not reach speech synthesis and leaves the
  item's \<open>audioBuffer\<close> as it was.
\<close>

lemma hard_failure_ends_in_error:
  assumes "isProcessingQueue state" and "scanNext state = Some nextItem"
    and "hardFailure gw nextItem"
  shows "status (processedItem gw state) = Error \<and>
         (\<exists>message. error (processedItem gw state) = Some message \<and> message \<noteq> []) \<and>
         (\<forall>t. CallSpeech t \<notin> set (processItem gw nextItem)) \<and>
         audioBuffer (processedItem gw state) = audioBuffer nextItem"
proof -
  have item: "processedItem gw state = runItem gw nextItem"
    using assms(1,2) by (rule processedItem_runItem)
  obtain as message where acts: "processItem gw nextItem = as @ [catchUpdate message]"
    and calls: "\<forall>t. CallSpeech t \<notin> set as"
    and upds: "\<forall>updates b. Update updates \<in> set as \<longrightarrow> SetAudioBuffer b \<notin> set updates"
    using hardFailure_actions [OF assms(3)] by blast
  let ?m = "if message = [] then defaultErrorMsg else message"
  have run: "runItem gw nextItem = merge [SetStatus Error, SetError (Some ?m)] (fold performOnItem as nextItem)"
    unfolding runItem_def acts catchUpdate_def by (rule fold_performOnItem_last)
  have "?m \<noteq> []"
    by (simp add: defaultErrorMsg_def)
  moreover have "audioBuffer (runItem gw nextItem) = audioBuffer nextItem"
    unfolding run using fold_performOnItem_keeps_audioBuffer [OF upds] by (simp add: merge_def)
  moreover have "\<forall>t. CallSpeech t \<notin> set (processItem gw nextItem)"
    unfolding acts using calls by (simp add: catchUpdate_def)
  ultimately show ?thesis
    unfolding item using run by (simp add: merge_def)
qed

text \<open>
  After any item, the effect and its timer are at rest. The updates of \<open>processNext\<close>
  change \<open>currentItemId\<close> and the queue, so the render that follows runs the cleanup and
  sets \<open>isCancelled\<close>: the timer's callback returns without a scan. The effect of the new
  render does nothing either, since \<open>currentItemId\<close> still names the item.
\<close>

lemma processor_rests_after_one_item:
  assumes "isProcessingQueue state" and "\<not> truthy (currentItemId state)"
    and "scanNext state = Some nextItem" and "item_id nextItem \<noteq> []"
  shows "effectThenTimer gw state =
           (performAll (item_id nextItem) (processItem gw nextItem)
              (state\<lparr>currentItemId := Some (item_id nextItem)\<rparr>), False) \<and>
         runEffect gw (fst (effectThenTimer gw state)) = (fst (effectThenTimer gw state), False)"
proof -
  let ?latest = "performAll (item_id nextItem) (processItem gw nextItem)
              (state\<lparr>currentItemId := Some (item_id nextItem)\<rparr>)"
  have r: "runEffect gw state = (?latest, True)"
    using assms by (simp add: runEffect_def processNext_def)
  have c: "currentItemId ?latest = Some (item_id nextItem)"
    by (simp add: currentItemId_performAll)
  have "currentItemId state \<noteq> Some (item_id nextItem)"
    using assms(2,4) by (auto simp: truthy_def)
  with c have d: "depsChanged state ?latest"
    by (simp add: depsChanged_def)
  have e: "effectThenTimer gw state = (?latest, False)"
    using r d by (simp add: effectThenTimer_def timerFired_def)
  moreover have "runEffect gw ?latest = (?latest, False)"
    using c assms(4) by (simp add: runEffect_def truthy_def)
  ultimately show ?thesis by simp
qed

text \<open>
  C2, on a queue of an item whose extraction fails and a second \<open>Idle\<close> item, with the
  processor started by \<open>toggleProcessing\<close>: the first item ends in \<open>Error\<close>, and the
  processor comes to rest with the second item still \<open>Idle\<close>, \<open>isProcessingQueue\<close>
  still true, no timer pending and an effect that does nothing. The claim that the
  processor goes on to the next \<open>Idle\<close> item does not hold of this run.
\<close>

theorem queue_halts_after_failed_item:
  "map status (queue (fst (effectThenTimer (sampleGateway (Inl [0x48, 0x57, 0x50]) (Inr [0x42]) (Inl [0x78]))
      (toggleProcessing (stoppedWith [fileItem [0x61] sampleFile CHINESE, textItem [0x62] [0x41] KOREAN])))))
     = [Error, Idle] \<and>
   effectThenTimer (sampleGateway (Inl [0x48, 0x57, 0x50]) (Inr [0x42]) (Inl [0x78]))
      (toggleProcessing (stoppedWith [fileItem [0x61] sampleFile CHINESE, textItem [0x62] [0x41] KOREAN]))
     = ((runningWith
          [(fileItem [0x61] sampleFile CHINESE)
             \<lparr>status := Error, error := Some (fileReadFailedPrefix @ [0x48, 0x57, 0x50])\<rparr>,
           textItem [0x62] [0x41] KOREAN])\<lparr>currentItemId := Some [0x61]\<rparr>, False) \<and>
   runEffect (sampleGateway (Inl [0x48, 0x57, 0x50]) (Inr [0x42]) (Inl [0x78]))
      ((runningWith
          [(fileItem [0x61] sampleFile CHINESE)
             \<lparr>status := Error, error := Some (fileReadFailedPrefix @ [0x48, 0x57, 0x50])\<rparr>,
           textItem [0x62] [0x41] KOREAN])\<lparr>currentItemId := Some [0x61]\<rparr>)
     = ((runningWith
          [(fileItem [0x61] sampleFile CHINESE)
             \<lparr>status := Error, error := Some (fileReadFailedPrefix @ [0x48, 0x57, 0x50])\<rparr>,
           textItem [0x62] [0x41] KOREAN])\<lparr>currentItemId := Some [0x61]\<rparr>, False)"
  by (simp add: effectThenTimer_def runEffect_def timerFired_def depsChanged_def truthy_def
      processNext_def scanNext_def toggleProcessing_def stoppedWith_def runningWith_def
      fileItem_def textItem_def sampleGateway_def processItem_def extractionStage_def
      catchUpdate_def performAll_def updateItemStatus_def merge_def fileReadFailedPrefix_def)

text \<open>
  A scan of the state in which the run below ends would stop the processor, but none runs.
\<close>

lemma a_scan_would_stop_the_processor:
  "fst (processNext muteGateway False
      ((runningWith
         [(textItem [0x61] [0x41] KOREAN)
            \<lparr>translatedText := Some [0x41], status := Completed,
             error := Some speechFailedNote\<rparr>])\<lparr>currentItemId := Some [0x61]\<rparr>)
      ((runningWith
         [(textItem [0x61] [0x41] KOREAN)
            \<lparr>translatedText := Some [0x41], status := Completed,
             error := Some speechFailedNote\<rparr>])\<lparr>currentItemId := Some [0x61]\<rparr>)) =
     stoppedWith
         [(textItem [0x61] [0x41] KOREAN)
            \<lparr>translatedText := Some [0x41], status := Completed,
             error := Some speechFailedNote\<rparr>]"
  by (simp add: processNext_def scanNext_def stoppedWith_def runningWith_def textItem_def)

text \<open>
  C4, on a queue of one \<open>Idle\<close> item, with the processor started by
  \<open>toggleProcessing\<close>: the scan selects the item and the pipeline completes it. Then no
  \<open>Idle\<close> item exists, and yet the processor stays as it is: \<open>isProcessingQueue\<close> is
  still true, \<open>currentItemId\<close> still names the item, no timer is pending and the effect
  does nothing, so that no further scan runs. The claim that the processor stops itself
  when no \<open>Idle\<close> item exists does not hold of this run.
\<close>

theorem processor_keeps_running_without_idle_items:
  "effectThenTimer muteGateway (toggleProcessing (stoppedWith [textItem [0x61] [0x41] KOREAN])) =
     ((runningWith
         [(textItem [0x61] [0x41] KOREAN)
            \<lparr>translatedText := Some [0x41], status := Completed,
             error := Some speechFailedNote\<rparr>])\<lparr>currentItemId := Some [0x61]\<rparr>, False) \<and>
   scanNext ((runningWith
         [(textItem [0x61] [0x41] KOREAN)
            \<lparr>translatedText := Some [0x41], status := Completed,
             error := Some speechFailedNote\<rparr>])\<lparr>currentItemId := Some [0x61]\<rparr>) = None \<and>
   isProcessingQueue ((runningWith
         [(textItem [0x61] [0x41] KOREAN)
            \<lparr>translatedText := Some [0x41], status := Completed,
             error := Some speechFailedNote\<rparr>])\<lparr>currentItemId := Some [0x61]\<rparr>) \<and>
   runEffect muteGateway ((runningWith
         [(textItem [0x61] [0x41] KOREAN)
            \<lparr>translatedText := Some [0x41], status := Completed,
             error := Some speechFailedNote\<rparr>])\<lparr>currentItemId := Some [0x61]\<rparr>) =
     ((runningWith
         [(textItem [0x61] [0x41] KOREAN)
            \<lparr>translatedText := Some [0x41], status := Completed,
             error := Some speechFailedNote\<rparr>])\<lparr>currentItemId := Some [0x61]\<rparr>, False)"
  by (simp add: effectThenTimer_def runEffect_def timerFired_def depsChanged_def truthy_def
      processNext_def scanNext_def toggleProcessing_def stoppedWith_def runningWith_def
      textItem_def muteGateway_def processItem_def extractionStage_def contentGuard_def
      translationStage_def speechStage_def performAll_def updateItemStatus_def merge_def)

section \<open>Pause and resume\<close>

text \<open>
  C5. While an item plays, \<open>pauseAudio\<close> adds the time played since the start of the
  interval, \<open>now - startTime\<close>, to \<open>offset\<close>, stops the node and the progress loop and
  keeps \<open>playingItemId\<close> and \<open>offset\<close>: the session is suspended, not reset. A
  \<open>playAudio\<close> with \<open>resume = true\<close> at the same clock reading starts the new node at
  that very offset and leaves \<open>offset\<close> as the pause has set it. The progress is
  continuous at the boundary: the displayed progress does not move at the pause or at the
  resume, and the sample that \<open>updateProgress\<close> takes at that clock reading after the
  resume is the sample it takes there before the pause.
\<close>

theorem pause_then_resume:
  assumes "audioSource p = Some src" and "playingItemId p = Some i" and "0 < duration buf"
    and "emitting p = [src]" and "\<not> suspended p"
  shows "offset (pauseAudio now p) = offset p + (now - startTime p) \<and>
         playingItemId (pauseAudio now p) = Some i \<and>
         isPaused (pauseAudio now p) \<and>
         audioSource (pauseAudio now p) = None \<and>
         emitting (pauseAudio now p) = [] \<and>
         \<not> animationFrame (pauseAudio now p) \<and>
         playbackProgress (pauseAudio now p) = playbackProgress p \<and>
         offset (playAudio buf i True now (pauseAudio now p)) = offset (pauseAudio now p) \<and>
         map startedAt (emitting (playAudio buf i True now (pauseAudio now p))) =
           [offset (pauseAudio now p)] \<and>
         playingItemId (playAudio buf i True now (pauseAudio now p)) = Some i \<and>
         \<not> isPaused (playAudio buf i True now (pauseAudio now p)) \<and>
         playbackProgress (playAudio buf i True now (pauseAudio now p)) = playbackProgress p \<and>
         playbackProgress (updateProgress buf now (playAudio buf i True now (pauseAudio now p))) =
           playbackProgress (updateProgress buf now p)"
proof -
  let ?paused = "pauseAudio now p"
  have paused: "?paused = p\<lparr>offset := offset p + (now - startTime p), emitting := [],
      audioSource := None, animationFrame := False, isPaused := True\<rparr>"
    using assms(1,4) by (simp add: pauseAudio_def)
  have a: "audioSource ?paused = None" "emitting ?paused = []" "\<not> suspended ?paused"
    unfolding paused using assms(5) by simp_all
  note r = playAudio_resume [OF a, of buf i now]
  have progress: "playbackProgress (updateProgress buf now (playAudio buf i True now ?paused)) =
      playbackProgress (updateProgress buf now p)"
    using r(1,5,6) assms(1) by (simp add: updateProgress_def Let_def paused)
  have "playbackProgress (playAudio buf i True now ?paused) = playbackProgress p"
    using assms(5) by (simp add: playAudio_def startSource_def Let_def paused)
  with r progress assms(2) show ?thesis
    by (simp add: paused)
qed

theorem pause_then_resume_witness:
  "playbackProgress (updateProgress \<lparr>duration = 4\<rparr> 1
      (playAudio \<lparr>duration = 4\<rparr> [0x61] True 1
        (pauseAudio 1 (playAudio \<lparr>duration = 4\<rparr> [0x61] False 0 initialPlayer)))) = 25 \<and>
   playbackProgress (updateProgress \<lparr>duration = 4\<rparr> 1
      (playAudio \<lparr>duration = 4\<rparr> [0x61] False 0 initialPlayer)) = 25 \<and>
   offset (pauseAudio 1 (playAudio \<lparr>duration = 4\<rparr> [0x61] False 0 initialPlayer)) = 1 \<and>
   offset (playAudio \<lparr>duration = 4\<rparr> [0x61] True 1
        (pauseAudio 1 (playAudio \<lparr>duration = 4\<rparr> [0x61] False 0 initialPlayer))) = 1 \<and>
   map startedAt (emitting (playAudio \<lparr>duration = 4\<rparr> [0x61] True 1
        (pauseAudio 1 (playAudio \<lparr>duration = 4\<rparr> [0x61] False 0 initialPlayer)))) = [1]"
proof -
  let ?buf = "\<lparr>duration = 4\<rparr>"
  let ?src = "\<lparr>node = 0, buffer = ?buf, onended = Some False, startedAt = 0\<rparr>"
  let ?p = "playAudio ?buf [0x61] False 0 initialPlayer"
  have p: "?p = \<lparr>audioSource = Some ?src, animationFrame = True, startTime = 0, offset = 0,
      playingItemId = Some [0x61], isPaused = False, playbackProgress = 0, emitting = [?src],
      created = 1, suspended = False, awaiting = []\<rparr>"
    by (simp add: playAudio_def startSource_def initialPlayer_def truthy_def Let_def)
  have h1: "audioSource ?p = Some ?src" and h2: "playingItemId ?p = Some [0x61]"
    and h4: "emitting ?p = [?src]" and h5: "\<not> suspended ?p"
    unfolding p by simp_all
  have h3: "0 < duration ?buf"
    by simp
  have u: "playbackProgress (updateProgress ?buf 1 ?p) = 25"
    unfolding p by (simp add: updateProgress_def Let_def)
  show ?thesis
    using pause_then_resume [OF h1 h2 h3 h4 h5, of 1] u
    by (simp add: p)
qed

section \<open>The end of the audio\<close>

text \<open>
  The handler that \<open>playAudio\<close> installs tests the \<open>isPaused\<close> of the render that
  called \<open>playAudio\<close>. A fresh play from a player that is not paused is reset when its
  audio ends; a resumed play is called while \<open>isPaused\<close> is true, and its end resets nothing.
\<close>

lemma fresh_session_is_reset_at_its_end:
  assumes "\<not> isPaused p" and "audioSource p = None" and "emitting p = []"
    and "\<not> suspended p"
  shows "finished (created p) (playAudio buf i False now p) = stopAudio (playAudio buf i False now p)"
proof -
  have inv: "emitting p = [] \<or> (\<exists>src. audioSource p = Some src \<and> emitting p = [src])"
    using assms(3) by simp
  note f = playAudio_fresh [OF inv assms(4), of buf i now]
  show ?thesis
    using assms(1) f(1,2) by (simp add: finished_def Let_def stopAudio_def)
qed

lemma resumed_session_survives_its_end:
  assumes "isPaused p" and "audioSource p = None" and "emitting p = []"
    and "\<not> suspended p"
  shows "finished (created p) (playAudio buf i True now p) =
           (playAudio buf i True now p)\<lparr>emitting := []\<rparr>"
    and "playingItemId (finished (created p) (playAudio buf i True now p)) = Some i"
    and "offset (finished (created p) (playAudio buf i True now p)) = offset p"
  using assms playAudio_resume [OF assms(2,3,4), of buf i now]
  by (simp_all add: finished_def Let_def)

text \<open>
  A pause removes the handler before it stops the node, so no end of the paused node
  resets the player.
\<close>

lemma pause_fires_no_reset:
  assumes "audioSource p = Some src" and "emitting p = [src]"
  shows "finished n (pauseAudio now p) = pauseAudio now p"
  using assms by (simp add: finished_def pauseAudio_def)

text \<open>
  C6, on an item of four seconds that is played, paused after two seconds, resumed at once
  and left to play to its end: when the resumed node ends, \<open>playingItemId\<close> still names
  the item, \<open>offset\<close> is still 2 and the progress stays at 100, where \<open>stopAudio\<close>
  would have cleared all three. Without the pause the end of the audio does reset the
  player. The claim that a natural end resets the session after any pause and resume
  does not hold of this run.
\<close>

theorem natural_end_after_resume:
  "playingItemId (finished 1 (updateProgress \<lparr>duration = 4\<rparr> 4
      (playButton (audioItem [0x61] \<lparr>duration = 4\<rparr>) 2
        (playButton (audioItem [0x61] \<lparr>duration = 4\<rparr>) 2
          (playButton (audioItem [0x61] \<lparr>duration = 4\<rparr>) 0 initialPlayer))))) = Some [0x61] \<and>
   offset (finished 1 (updateProgress \<lparr>duration = 4\<rparr> 4
      (playButton (audioItem [0x61] \<lparr>duration = 4\<rparr>) 2
        (playButton (audioItem [0x61] \<lparr>duration = 4\<rparr>) 2
          (playButton (audioItem [0x61] \<lparr>duration = 4\<rparr>) 0 initialPlayer))))) = 2 \<and>
   playbackProgress (finished 1 (updateProgress \<lparr>duration = 4\<rparr> 4
      (playButton (audioItem [0x61] \<lparr>duration = 4\<rparr>) 2
        (playButton (audioItem [0x61] \<lparr>duration = 4\<rparr>) 2
          (playButton (audioItem [0x61] \<lparr>duration = 4\<rparr>) 0 initialPlayer))))) = 100 \<and>
   emitting (finished 1 (updateProgress \<lparr>duration = 4\<rparr> 4
      (playButton (audioItem [0x61] \<lparr>duration = 4\<rparr>) 2
        (playButton (audioItem [0x61] \<lparr>duration = 4\<rparr>) 2
          (playButton (audioItem [0x61] \<lparr>duration = 4\<rparr>) 0 initialPlayer))))) = [] \<and>
   finished 0 (updateProgress \<lparr>duration = 4\<rparr> 4
      (playButton (audioItem [0x61] \<lparr>duration = 4\<rparr>) 0 initialPlayer)) =
     stopAudio (playButton (audioItem [0x61] \<lparr>duration = 4\<rparr>) 0 initialPlayer)"
proof -
  let ?buf = "\<lparr>duration = 4\<rparr>"
  let ?item = "audioItem [0x61] ?buf"
  let ?src0 = "\<lparr>node = 0, buffer = ?buf, onended = Some False, startedAt = 0\<rparr>"
  let ?src1 = "\<lparr>node = 1, buffer = ?buf, onended = Some True, startedAt = 2\<rparr>"
  have played: "playButton ?item 0 initialPlayer =
      \<lparr>audioSource = Some ?src0, animationFrame = True, startTime = 0, offset = 0,
       playingItemId = Some [0x61], isPaused = False, playbackProgress = 0, emitting = [?src0],
       created = 1, suspended = False, awaiting = []\<rparr>"
    by (simp add: playButton_def audioItem_def playAudio_def startSource_def initialPlayer_def
        truthy_def Let_def)
  have paused: "playButton ?item 2 (playButton ?item 0 initialPlayer) =
      \<lparr>audioSource = None, animationFrame = False, startTime = 0, offset = 2,
       playingItemId = Some [0x61], isPaused = True, playbackProgress = 0, emitting = [],
       created = 1, suspended = False, awaiting = []\<rparr>"
    unfolding played by (simp add: playButton_def audioItem_def pauseAudio_def halt_def)
  have resumed: "playButton ?item 2 (playButton ?item 2 (playButton ?item 0 initialPlayer)) =
      \<lparr>audioSource = Some ?src1, animationFrame = True, startTime = 2, offset = 2,
       playingItemId = Some [0x61], isPaused = False, playbackProgress = 0, emitting = [?src1],
       created = 2, suspended = False, awaiting = []\<rparr>"
    unfolding paused by (simp add: playButton_def audioItem_def playAudio_def startSource_def Let_def)
  have "finished 1 (updateProgress ?buf 4
      (playButton ?item 2 (playButton ?item 2 (playButton ?item 0 initialPlayer)))) =
      \<lparr>audioSource = Some ?src1, animationFrame = True, startTime = 2, offset = 2,
       playingItemId = Some [0x61], isPaused = False, playbackProgress = 100, emitting = [],
       created = 2, suspended = False, awaiting = []\<rparr>"
    unfolding resumed by (simp add: finished_def updateProgress_def halt_def Let_def)
  moreover have "finished 0 (updateProgress ?buf 4 (playButton ?item 0 initialPlayer)) =
      stopAudio (playButton ?item 0 initialPlayer)"
    unfolding played by (simp add: finished_def updateProgress_def halt_def stopAudio_def Let_def)
  ultimately show ?thesis by simp
qed

section \<open>One session\<close>

text \<open>
  On a context that runs from the first render on, at most one node emits audio in every
  reachable state, and the item that \<open>playingItemId\<close> names is in the queue. Playing an
  item \<open>b\<close> afresh while another item \<open>a\<close> is active (\<open>a\<close> is emitting, or is paused
  and has a non-empty id) runs \<open>stopAudio\<close> first and only then starts the node of
  \<open>b\<close>; every fresh play starts at offset 0; removing the item that plays runs
  \<open>stopAudio\<close> within \<open>removeFromQueue\<close>.
\<close>

lemma one_session_while_context_runs:
  assumes "reachableFrom initialPlayer (state, p)"
  shows "length (emitting p) \<le> 1 \<and>
         (\<forall>i. playingItemId p = Some i \<longrightarrow> i \<in> item_id ` set (queue state)) \<and>
         (\<forall>a b buf now.
            playingItemId p = Some a \<and> a \<noteq> b \<and> (audioSource p \<noteq> None \<or> a \<noteq> []) \<longrightarrow>
              playAudio buf b False now p = startSource buf b False (isPaused p) now (stopAudio p) \<and>
              emitting (stopAudio p) = [] \<and> offset (stopAudio p) = 0 \<and>
              playingItemId (stopAudio p) = None \<and>
              map startedAt (emitting (playAudio buf b False now p)) = [0] \<and>
              playingItemId (playAudio buf b False now p) = Some b) \<and>
         (\<forall>a buf now. offset (playAudio buf a False now p) = 0 \<and>
            map_option startedAt (audioSource (playAudio buf a False now p)) = Some 0) \<and>
         (\<forall>i. playingItemId p = Some i \<longrightarrow>
            snd (removeFromQueue i (state, p)) = stopAudio p \<and>
            emitting (snd (removeFromQueue i (state, p))) = [] \<and>
            playingItemId (snd (removeFromQueue i (state, p))) = None) \<and>
         (\<forall>i. i \<notin> item_id ` set (queue (fst (removeFromQueue i (state, p)))) \<and>
            playingItemId (snd (removeFromQueue i (state, p))) \<noteq> Some i)"
proof -
  from reachable_sessionInvariant [OF assms]
  have inv: "emitting p = [] \<or> (\<exists>src. audioSource p = Some src \<and> emitting p = [src])"
    and ids: "\<forall>i. playingItemId p = Some i \<longrightarrow> i \<in> item_id ` set (queue state)"
    and run: "\<not> suspended p"
    by (simp_all add: sessionInvariant_iff)
  have one: "length (emitting p) \<le> 1"
    using inv by auto
  have stopped: "emitting (stopAudio p) = []"
    using inv by (rule stopAudio_emitting)
  have fresh: "offset (playAudio buf a False now p) = 0"
    "map_option startedAt (audioSource (playAudio buf a False now p)) = Some 0"
    "map startedAt (emitting (playAudio buf a False now p)) = [0]"
    "playingItemId (playAudio buf a False now p) = Some a" for a buf now
    using playAudio_fresh [OF inv run, of buf a now] by simp_all
  have switch: "playAudio buf b False now p = startSource buf b False (isPaused p) now (stopAudio p)"
    if "playingItemId p = Some a \<and> a \<noteq> b \<and> (audioSource p \<noteq> None \<or> a \<noteq> [])" for a b buf now
  proof (cases "a = []")
    case False
    with that show ?thesis
      using run by (simp add: playAudio_def truthy_def Let_def)
  next
    case True
    with that have "audioSource p \<noteq> None" by simp
    with True that show ?thesis
      using run by (simp add: playAudio_def truthy_def Let_def)
  qed
  have c3: "\<forall>a b buf now.
            playingItemId p = Some a \<and> a \<noteq> b \<and> (audioSource p \<noteq> None \<or> a \<noteq> []) \<longrightarrow>
              playAudio buf b False now p = startSource buf b False (isPaused p) now (stopAudio p) \<and>
              emitting (stopAudio p) = [] \<and> offset (stopAudio p) = 0 \<and>
              playingItemId (stopAudio p) = None \<and>
              map startedAt (emitting (playAudio buf b False now p)) = [0] \<and>
              playingItemId (playAudio buf b False now p) = Some b"
  proof (intro allI impI)
    fix a b buf now
    assume h: "playingItemId p = Some a \<and> a \<noteq> b \<and> (audioSource p \<noteq> None \<or> a \<noteq> [])"
    have o: "offset (stopAudio p) = 0" "playingItemId (stopAudio p) = None"
      by simp_all
    from switch [OF h, of buf now] stopped o fresh(3) [of buf b now] fresh(4) [of buf b now]
    show "playAudio buf b False now p = startSource buf b False (isPaused p) now (stopAudio p) \<and>
              emitting (stopAudio p) = [] \<and> offset (stopAudio p) = 0 \<and>
              playingItemId (stopAudio p) = None \<and>
              map startedAt (emitting (playAudio buf b False now p)) = [0] \<and>
              playingItemId (playAudio buf b False now p) = Some b"
      by - (intro conjI; assumption)
  qed
  have c4: "\<forall>a buf now. offset (playAudio buf a False now p) = 0 \<and>
            map_option startedAt (audioSource (playAudio buf a False now p)) = Some 0"
    using fresh(1,2) by (intro allI conjI)
  have c5: "\<forall>i. playingItemId p = Some i \<longrightarrow>
            snd (removeFromQueue i (state, p)) = stopAudio p \<and>
            emitting (snd (removeFromQueue i (state, p))) = [] \<and>
            playingItemId (snd (removeFromQueue i (state, p))) = None"
    using stopped by (simp add: removeFromQueue_def)
  have c6: "\<forall>i. i \<notin> item_id ` set (queue (fst (removeFromQueue i (state, p)))) \<and>
            playingItemId (snd (removeFromQueue i (state, p))) \<noteq> Some i"
    by (auto simp: removeFromQueue_def)
  from one ids c3 c4 c5 c6 show ?thesis
    by (intro conjI)
qed

text \<open>
  C7, on a context that is suspended at the first play. Two completed items with audio
  are in the queue. The play button of the first and then of the second is clicked before
  \<open>ctx.resume()\<close> has resolved: each call of \<open>playAudio\<close> finds nothing to stop and
  waits. When the context resumes, both calls start their node: two nodes emit at once,
  and \<open>audioSourceRef\<close> holds the second only. In a second run the item is removed while
  its \<open>playAudio\<close> waits: \<open>removeFromQueue\<close> finds no playing item to stop, and when the
  context resumes the node starts and \<open>playingItemId\<close> names an item that is no longer in
  the queue. Both states are reachable; the claim that at most one session exists at any
  time, and never for a removed item, does not hold of them.
\<close>

theorem two_sessions_on_suspended_context:
  "map node (emitting (resumeResolved 0
      (playButton (audioItem [0x62] \<lparr>duration = 5\<rparr>) 0
        (playButton (audioItem [0x61] \<lparr>duration = 3\<rparr>) 0 suspendedPlayer)))) = [0, 1] \<and>
   map_option node (audioSource (resumeResolved 0
      (playButton (audioItem [0x62] \<lparr>duration = 5\<rparr>) 0
        (playButton (audioItem [0x61] \<lparr>duration = 3\<rparr>) 0 suspendedPlayer)))) = Some 1 \<and>
   reachableFrom suspendedPlayer
     (addToQueue [audioItem [0x61] \<lparr>duration = 3\<rparr>, audioItem [0x62] \<lparr>duration = 5\<rparr>] initialState,
      resumeResolved 0
        (playButton (audioItem [0x62] \<lparr>duration = 5\<rparr>) 0
          (playButton (audioItem [0x61] \<lparr>duration = 3\<rparr>) 0 suspendedPlayer))) \<and>
   queue (fst (removeFromQueue [0x61]
      (addToQueue [audioItem [0x61] \<lparr>duration = 3\<rparr>] initialState,
       playButton (audioItem [0x61] \<lparr>duration = 3\<rparr>) 0 suspendedPlayer))) = [] \<and>
   playingItemId (resumeResolved 0 (snd (removeFromQueue [0x61]
      (addToQueue [audioItem [0x61] \<lparr>duration = 3\<rparr>] initialState,
       playButton (audioItem [0x61] \<lparr>duration = 3\<rparr>) 0 suspendedPlayer)))) = Some [0x61] \<and>
   map node (emitting (resumeResolved 0 (snd (removeFromQueue [0x61]
      (addToQueue [audioItem [0x61] \<lparr>duration = 3\<rparr>] initialState,
       playButton (audioItem [0x61] \<lparr>duration = 3\<rparr>) 0 suspendedPlayer))))) = [0] \<and>
   reachableFrom suspendedPlayer
     (fst (removeFromQueue [0x61]
        (addToQueue [audioItem [0x61] \<lparr>duration = 3\<rparr>] initialState,
         playButton (audioItem [0x61] \<lparr>duration = 3\<rparr>) 0 suspendedPlayer)),
      resumeResolved 0 (snd (removeFromQueue [0x61]
        (addToQueue [audioItem [0x61] \<lparr>duration = 3\<rparr>] initialState,
         playButton (audioItem [0x61] \<lparr>duration = 3\<rparr>) 0 suspendedPlayer))))"
proof -
  let ?a = "audioItem [0x61] \<lparr>duration = 3\<rparr>"
  let ?b = "audioItem [0x62] \<lparr>duration = 5\<rparr>"
  let ?wa = "\<lparr>buf_arg = \<lparr>duration = 3\<rparr>, id_arg = [0x61], resume_arg = False, isPaused_seen = False\<rparr>"
  let ?wb = "\<lparr>buf_arg = \<lparr>duration = 5\<rparr>, id_arg = [0x62], resume_arg = False, isPaused_seen = False\<rparr>"
  let ?two = "addToQueue [?a, ?b] initialState"
  let ?one = "addToQueue [?a] initialState"
  have pa: "playButton ?a 0 suspendedPlayer = suspendedPlayer\<lparr>awaiting := [?wa]\<rparr>"
    by (simp add: playButton_def audioItem_def playAudio_def suspendedPlayer_def initialPlayer_def
        truthy_def Let_def)
  have pb: "playButton ?b 0 (playButton ?a 0 suspendedPlayer) =
      suspendedPlayer\<lparr>awaiting := [?wa, ?wb]\<rparr>"
    unfolding pa
    by (simp add: playButton_def audioItem_def playAudio_def suspendedPlayer_def initialPlayer_def
        truthy_def Let_def)
  have both: "map node (emitting (resumeResolved 0 (suspendedPlayer\<lparr>awaiting := [?wa, ?wb]\<rparr>))) = [0, 1]"
    "map_option node (audioSource (resumeResolved 0 (suspendedPlayer\<lparr>awaiting := [?wa, ?wb]\<rparr>))) = Some 1"
    by (simp_all add: resumeResolved_def continuePlay_def startSource_def suspendedPlayer_def
        initialPlayer_def Let_def)
  have r0: "reachableFrom suspendedPlayer (?two, suspendedPlayer)"
    by (intro reachableFrom.add reachableFrom.start)
  have "?a \<in> set (queue ?two)" and inb: "?b \<in> set (queue ?two)"
    by (simp_all add: addToQueue_def)
  with r0 have r1: "reachableFrom suspendedPlayer (?two, playButton ?a 0 suspendedPlayer)"
    by (intro reachableFrom.button)
  from r1 inb have r2: "reachableFrom suspendedPlayer
      (?two, playButton ?b 0 (playButton ?a 0 suspendedPlayer))"
    by (rule reachableFrom.button)
  have "suspended (playButton ?b 0 (playButton ?a 0 suspendedPlayer))"
    unfolding pb by (simp add: suspendedPlayer_def)
  with r2 have r3: "reachableFrom suspendedPlayer
      (?two, resumeResolved 0 (playButton ?b 0 (playButton ?a 0 suspendedPlayer)))"
    by (rule reachableFrom.resolved)
  have rm: "removeFromQueue [0x61] (?one, playButton ?a 0 suspendedPlayer) =
      (?one\<lparr>queue := []\<rparr>, suspendedPlayer\<lparr>awaiting := [?wa]\<rparr>)"
    unfolding pa
    by (simp add: removeFromQueue_def addToQueue_def initialState_def audioItem_def
        suspendedPlayer_def initialPlayer_def)
  have gone: "playingItemId (resumeResolved 0 (suspendedPlayer\<lparr>awaiting := [?wa]\<rparr>)) = Some [0x61]"
    "map node (emitting (resumeResolved 0 (suspendedPlayer\<lparr>awaiting := [?wa]\<rparr>))) = [0]"
    by (simp_all add: resumeResolved_def continuePlay_def startSource_def suspendedPlayer_def
        initialPlayer_def Let_def)
  have s0: "reachableFrom suspendedPlayer (?one, suspendedPlayer)"
    by (intro reachableFrom.add reachableFrom.start)
  have "?a \<in> set (queue ?one)"
    by (simp add: addToQueue_def)
  with s0 have s1: "reachableFrom suspendedPlayer (?one, playButton ?a 0 suspendedPlayer)"
    by (intro reachableFrom.button)
  then have s2: "reachableFrom suspendedPlayer
      (removeFromQueue [0x61] (?one, playButton ?a 0 suspendedPlayer))"
    by (rule reachableFrom.remove)
  have "suspended (suspendedPlayer\<lparr>awaiting := [?wa]\<rparr>)"
    by (simp add: suspendedPlayer_def)
  with s2 have s3: "reachableFrom suspendedPlayer
      (?one\<lparr>queue := []\<rparr>, resumeResolved 0 (suspendedPlayer\<lparr>awaiting := [?wa]\<rparr>))"
    unfolding rm by (rule reachableFrom.resolved)
  show ?thesis
    using both r3 gone s3 by (simp add: pb rm)
qed

section \<open>The size of uploaded files\<close>

text \<open>
  C10. \<open>handleFiles\<close> enqueues an \<open>Idle\<close> item for every file of the list whose name
  has a supported extension, and for no other: the number of items added is the number of
  such files. The byte size plays no part: the file is enqueued whatever its size, also
  when \<open>isValidFileSize\<close> is false for it.
\<close>

theorem oversized_files_are_enqueued:
  assumes "f \<in> set files" and "isValidFileType toLowerCase f"
  shows "(\<exists>item \<in> set (queue (handleFiles toLowerCase generateId (Some files) state)).
            file_ref item = Some f \<and> fileName item = name f \<and> status item = Idle \<and>
            originalText item = [] \<and> targetLanguage item = selectedLanguage state) \<and>
         length (queue (handleFiles toLowerCase generateId (Some files) state)) =
           length (queue state) + length (filter (isValidFileType toLowerCase) files) \<and>
         (\<forall>n. \<exists>item \<in> set (queue (handleFiles toLowerCase generateId
                  (Some [f\<lparr>size_bytes := n\<rparr>]) state)).
            file_ref item = Some (f\<lparr>size_bytes := n\<rparr>) \<and> status item = Idle)"
proof -
  let ?items = "newItems toLowerCase generateId (selectedLanguage state) 0 files"
  obtain k' where k': "\<lparr>item_id = generateId k', file_ref = Some f, fileName = name f,
      originalText = [], translatedText = None, targetLanguage = selectedLanguage state,
      status = Idle, error = None, audioBuffer = None\<rparr> \<in> set ?items"
    using newItems_contains [OF assms] by blast
  then have ne: "?items \<noteq> []" by auto
  then have q: "queue (handleFiles toLowerCase generateId (Some files) state) = queue state @ ?items"
    by (simp add: handleFiles_def Let_def addToQueue_def)
  have first: "\<exists>item \<in> set (queue (handleFiles toLowerCase generateId (Some files) state)).
            file_ref item = Some f \<and> fileName item = name f \<and> status item = Idle \<and>
            originalText item = [] \<and> targetLanguage item = selectedLanguage state"
    unfolding q using k' by force
  have count: "length (queue (handleFiles toLowerCase generateId (Some files) state)) =
           length (queue state) + length (filter (isValidFileType toLowerCase) files)"
    unfolding q by (simp add: length_newItems)
  have sized: "isValidFileType toLowerCase (f\<lparr>size_bytes := n\<rparr>)" for n
    using assms(2) by (simp add: isValidFileType_def)
  have any: "\<exists>item \<in> set (queue (handleFiles toLowerCase generateId
                  (Some [f\<lparr>size_bytes := n\<rparr>]) state)).
            file_ref item = Some (f\<lparr>size_bytes := n\<rparr>) \<and> status item = Idle" for n
    using sized [of n] by (simp add: handleFiles_def Let_def addToQueue_def)
  from first count any show ?thesis by blast
qed

theorem oversized_files_are_enqueued_witness:
  "sampleFile \<in> set [sampleFile] \<and> isValidFileType (\<lambda>s. s) sampleFile \<and>
   \<not> isValidFileSize sampleFile \<and>
   length (queue (handleFiles (\<lambda>s. s) (\<lambda>k. [0x61]) (Some [sampleFile]) initialState)) = 1 \<and>
   (\<exists>item \<in> set (queue (handleFiles (\<lambda>s. s) (\<lambda>k. [0x61]) (Some [sampleFile]) initialState)).
      file_ref item = Some sampleFile \<and> status item = Idle)"
proof -
  have h1: "sampleFile \<in> set [sampleFile]"
    by simp
  have h2: "isValidFileType (\<lambda>s. s) sampleFile"
    by (simp add: isValidFileType_def validExtensions_def endsWith_def sampleFile_def)
  have big: "\<not> isValidFileSize sampleFile"
    by (simp add: isValidFileSize_def MAX_FILE_SIZE_BYTES_def MAX_FILE_SIZE_MB_def sampleFile_def)
  from oversized_files_are_enqueued [OF h1 h2, of "\<lambda>k. [0x61]" initialState] h1 h2 big
  show ?thesis
    by (auto simp: h2 initialState_def)
qed

end
